theory Spec2Isabelle
  imports Main "HOL-Library.Word"
begin

unbundle bit_operations_syntax

section \<open>Bytes, C strings and faults\<close>

text \<open>
  The driver works on C \<open>char\<close> buffers. A byte is an 8-bit word; a buffer is the list of
  the bytes of the whole array, so its length is the array size. Reading or writing an
  index outside the array is undefined behaviour in C; the model makes it the fault
  \<open>OutOfBounds\<close>.
\<close>

type_synonym byte = "8 word"

datatype fault = OutOfBounds | NullPort

definition bytes :: "string \<Rightarrow> byte list" where
  "bytes s = map of_char s"

text \<open>The C string held by a buffer: the bytes before the first NUL.\<close>

definition cstr :: "byte list \<Rightarrow> byte list" where
  "cstr buf = takeWhile (\<lambda>b. b \<noteq> 0) buf"

section \<open>The field decoder \<open>grab_fields\<close>\<close>

text \<open>\<open>src[i] >= '0' && src[i] <= '9'\<close>; the outcome is the same for signed and unsigned \<open>char\<close>.\<close>

definition is_digit :: "byte \<Rightarrow> bool" where
  "is_digit c \<longleftrightarrow> 0x30 \<le> c \<and> c \<le> 0x39"

text \<open>
  Lines 114 to 116 of the loop body: \<open>tmp *= 10; if (digit) tmp += src[i] - '0'\<close>, in
  \<open>uint32_t\<close> arithmetic.
\<close>

definition grab_digit :: "byte list \<Rightarrow> nat \<Rightarrow> 32 word \<Rightarrow> 32 word" where
  "grab_digit src i tmp =
     (let tmp' = tmp * 10
      in if is_digit (src ! i) then tmp' + ucast (src ! i - 0x30) else tmp')"

text \<open>
  The \<open>for\<close> loop of \<open>grab_fields\<close>, from index \<open>i\<close> with accumulator \<open>tmp\<close>. The result is
  the returned value together with the buffer as the loop leaves it (the loop writes
  \<open>src[i + mult] = 0\<close> after a decimal point).
\<close>

function grab_loop :: "byte list \<Rightarrow> byte \<Rightarrow> nat \<Rightarrow> 32 word \<Rightarrow> fault + (32 word \<times> byte list)" where
  "grab_loop src mult i tmp =
     (if length src \<le> i then Inl OutOfBounds
      else if src ! i = 0 then Inr (tmp, src)
      else if src ! i = 0x2E then
        (if mult = 0 then Inr (tmp, src)
         else if length src \<le> Suc i + unat mult then Inl OutOfBounds
         else
           let src' = src[Suc i + unat mult := 0];
               tmp' = grab_digit src' (Suc i) tmp
           in if 15 \<le> Suc i then Inr (0, src') else grab_loop src' mult (Suc (Suc i)) tmp')
      else
        let tmp' = grab_digit src i tmp
        in if 15 \<le> i then Inr (0, src) else grab_loop src mult (Suc i) tmp')"
  by pat_completeness auto
termination
  by (relation "measure (\<lambda>(src, mult, i, tmp). length src - i)") auto

declare grab_loop.simps [simp del]

definition grab_fields :: "byte list \<Rightarrow> byte \<Rightarrow> fault + (32 word \<times> byte list)" where
  "grab_fields src mult = grab_loop src mult 0 0"


section \<open>External collaborators\<close>

text \<open>
  The parser calls \<open>GPS_coord_to_degrees\<close> (common/gps_conversion), \<open>gpsConstrainHDOP\<close>,
  \<open>gpsConstrainEPE\<close> and the constant \<open>GPS_HDOP_TO_EPH_MULTIPLIER\<close> (io/gps_private.h), none
  of which is part of this file; they are parameters of the model. The coordinate
  conversion takes a \<open>const char *\<close>: it is given the C string of the buffer. Whether plain
  \<open>char\<close> is signed is fixed by the compiler's ABI, and two comparisons of the parser depend
  on it, so it is a parameter as well.
\<close>

record env =
  GPS_coord_to_degrees :: "byte list \<Rightarrow> 32 word"
  gpsConstrainHDOP :: "32 word \<Rightarrow> 16 word"
  gpsConstrainEPE :: "32 word \<Rightarrow> 16 word"
  GPS_HDOP_TO_EPH_MULTIPLIER :: "32 word"
  char_is_signed :: bool

text \<open>The value of a \<open>char\<close> after integer promotion.\<close>

definition char_val :: "env \<Rightarrow> byte \<Rightarrow> int" where
  "char_val e c = (if char_is_signed e then sint c else uint c)"

section \<open>Data model\<close>

text \<open>\<open>gpsDataNmea_t\<close>, the parser's pending record \<open>gps_Msg\<close>.\<close>

record gpsDataNmea =
  fix_flag :: bool
  latitude :: "32 word"
  longitude :: "32 word"
  numSat :: byte
  altitude :: "16 word"
  speed :: "16 word"
  ground_course :: "16 word"
  hdop :: "16 word"

text \<open>
  The fields of the shared navigation solution \<open>gpsSol\<close> and of the counters \<open>gpsStats\<close>
  that this file reads or writes. The records are declared in io/gps.h, which is not part
  of this file: the field widths are those of the upstream header (the one-bit flags are
  booleans), and the two counters wrap at 32 bits.
\<close>

datatype gpsFixType = GPS_NO_FIX | GPS_FIX_2D | GPS_FIX_3D

record gpsLocation =
  lat :: "32 word"
  lon :: "32 word"
  alt :: "32 word"

record gpsFlags =
  gpsHeartbeat :: bool
  validVelNE :: bool
  validVelD :: bool
  validEPE :: bool

record gpsSolutionData =
  flags :: gpsFlags
  fixType :: gpsFixType
  sol_numSat :: byte
  llh :: gpsLocation
  groundSpeed :: "16 word"
  groundCourse :: "16 word"
  eph :: "16 word"
  epv :: "16 word"
  sol_hdop :: "16 word"

record gpsStatistics =
  errors :: "32 word"
  packetCount :: "32 word"

text \<open>
  The static locals of \<open>gpsNewFrameNMEA\<close> together with the two globals it writes.
  \<open>string\<close> is the array \<open>char string[NMEA_BUFFER_SIZE]\<close>.
\<close>

record nmea =
  gps_Msg :: gpsDataNmea
  param :: byte
  offset :: byte
  parity :: byte
  string :: "byte list"
  checksum_param :: byte
  gps_frame :: byte
  gpsSol :: gpsSolutionData
  gpsStats :: gpsStatistics

definition NO_FRAME :: byte where "NO_FRAME = 0"
definition FRAME_GGA :: byte where "FRAME_GGA = 1"
definition FRAME_RMC :: byte where "FRAME_RMC = 2"
definition NMEA_BUFFER_SIZE :: nat where "NMEA_BUFFER_SIZE = 16"

section \<open>The sentence parser \<open>gpsNewFrameNMEA\<close>\<close>

text \<open>Frame identification (lines 155 to 161): \<open>strcmp\<close> of the buffer with the four identifiers.\<close>

definition frame_ident :: "byte list \<Rightarrow> byte" where
  "frame_ident str =
     (if cstr str = bytes ''GPGGA'' \<or> cstr str = bytes ''GNGGA'' then FRAME_GGA
      else if cstr str = bytes ''GPRMC'' \<or> cstr str = bytes ''GNRMC'' then FRAME_RMC
      else NO_FRAME)"

text \<open>
  The \<open>FRAME_GGA\<close> switch on \<open>param\<close> (lines 166 to 199). \<open>grab_fields\<close> may write into the
  buffer, so the buffer is returned with the pending record. The negation \<open>*= -1\<close> of an
  \<open>int32_t\<close> is two's-complement negation.
\<close>

definition gga_field :: "env \<Rightarrow> byte \<Rightarrow> byte list \<Rightarrow> gpsDataNmea \<Rightarrow> fault + (byte list \<times> gpsDataNmea)" where
  "gga_field e p str m =
     (if p = 2 then Inr (str, m\<lparr>latitude := GPS_coord_to_degrees e (cstr str)\<rparr>)
      else if p = 3 then Inr (str, if str ! 0 = 0x53 then m\<lparr>latitude := latitude m * (-1)\<rparr> else m)
      else if p = 4 then Inr (str, m\<lparr>longitude := GPS_coord_to_degrees e (cstr str)\<rparr>)
      else if p = 5 then Inr (str, if str ! 0 = 0x57 then m\<lparr>longitude := longitude m * (-1)\<rparr> else m)
      else if p = 6 then Inr (str, if char_val e (str ! 0) > 0x30 then m\<lparr>fix_flag := True\<rparr> else m\<lparr>fix_flag := False\<rparr>)
      else if p = 7 then
        (case grab_fields str 0 of Inl f \<Rightarrow> Inl f
         | Inr (v, str') \<Rightarrow> Inr (str', m\<lparr>numSat := ucast v\<rparr>))
      else if p = 8 then
        (case grab_fields str 1 of Inl f \<Rightarrow> Inl f
         | Inr (v, str') \<Rightarrow> Inr (str', m\<lparr>hdop := ucast (v * 10)\<rparr>))
      else if p = 9 then
        (case grab_fields str 1 of Inl f \<Rightarrow> Inl f
         | Inr (v, str') \<Rightarrow> Inr (str', m\<lparr>altitude := ucast (v * 10)\<rparr>))
      else Inr (str, m))"

text \<open>
  The \<open>FRAME_RMC\<close> switch on \<open>param\<close> (lines 202 to 209). On the 32-bit target \<open>long\<close> has
  the width of \<open>uint32_t\<close>, so \<open>grab_fields(..) * 5144L / 1000L\<close> is unsigned 32-bit
  arithmetic; the assignment to the \<open>uint16_t\<close> field keeps the low 16 bits.
\<close>

definition rmc_field :: "byte \<Rightarrow> byte list \<Rightarrow> gpsDataNmea \<Rightarrow> fault + (byte list \<times> gpsDataNmea)" where
  "rmc_field p str m =
     (if p = 7 then
        (case grab_fields str 1 of Inl f \<Rightarrow> Inl f
         | Inr (v, str') \<Rightarrow> Inr (str', m\<lparr>speed := ucast ((v * 5144) div 1000)\<rparr>))
      else if p = 8 then
        (case grab_fields str 1 of Inl f \<Rightarrow> Inl f
         | Inr (v, str') \<Rightarrow> Inr (str', m\<lparr>ground_course := ucast v\<rparr>))
      else Inr (str, m))"

text \<open>The cases \<open>','\<close> and \<open>'*'\<close> (lines 151 to 219).\<close>

definition nmea_separator :: "env \<Rightarrow> byte \<Rightarrow> nmea \<Rightarrow> fault + nmea" where
  "nmea_separator e c s =
     (if length (string s) \<le> unat (offset s) then Inl OutOfBounds
      else
        let str = (string s)[unat (offset s) := 0];
            frame = (if param s = 0 then frame_ident str else gps_frame s);
            r = (if frame = FRAME_GGA then gga_field e (param s) str (gps_Msg s)
                 else if frame = FRAME_RMC then rmc_field (param s) str (gps_Msg s)
                 else Inr (str, gps_Msg s))
        in case r of Inl f \<Rightarrow> Inl f
           | Inr (str', m) \<Rightarrow>
               Inr (s\<lparr>gps_Msg := m, param := param s + 1, offset := 0,
                      parity := (if c = 0x2A then parity s else parity s XOR c),
                      string := str',
                      checksum_param := (if c = 0x2A then 1 else checksum_param s),
                      gps_frame := frame\<rparr>))"

text \<open>
  The checksum of line 223, computed in \<open>int\<close> from the promoted characters and then
  converted to \<open>uint8_t\<close>.
\<close>

definition hex_val :: "env \<Rightarrow> byte \<Rightarrow> int" where
  "hex_val e c = (if char_val e c \<ge> 0x41 then char_val e c - 0x41 + 10 else char_val e c - 0x30)"

definition nmea_checksum :: "env \<Rightarrow> byte list \<Rightarrow> byte" where
  "nmea_checksum e str = word_of_int (16 * hex_val e (str ! 0) + hex_val e (str ! 1))"

text \<open>The commit of a \<open>FRAME_GGA\<close> sentence (lines 228 to 249).\<close>

definition commit_gga :: "env \<Rightarrow> gpsDataNmea \<Rightarrow> gpsSolutionData \<Rightarrow> gpsSolutionData" where
  "commit_gga e m sol =
     (let sol1 = sol\<lparr>sol_numSat := numSat m\<rparr>;
          sol2 =
            (if fix_flag m then
               sol1\<lparr>fixType := GPS_FIX_3D,
                     llh := \<lparr>lat = latitude m, lon = longitude m, alt = ucast (altitude m)\<rparr>,
                     sol_hdop := gpsConstrainHDOP e (ucast (hdop m)),
                     eph := gpsConstrainEPE e (ucast (hdop m) * GPS_HDOP_TO_EPH_MULTIPLIER e),
                     epv := gpsConstrainEPE e (ucast (hdop m) * GPS_HDOP_TO_EPH_MULTIPLIER e),
                     flags := (flags sol1)\<lparr>validEPE := False\<rparr>\<rparr>
             else sol1\<lparr>fixType := GPS_NO_FIX\<rparr>)
      in sol2\<lparr>flags := (flags sol2)\<lparr>validVelNE := False, validVelD := False\<rparr>\<rparr>)"

text \<open>The commit of a \<open>FRAME_RMC\<close> sentence (lines 252 and 253).\<close>

definition commit_rmc :: "gpsDataNmea \<Rightarrow> gpsSolutionData \<Rightarrow> gpsSolutionData" where
  "commit_rmc m sol = sol\<lparr>groundSpeed := speed m, groundCourse := ground_course m\<rparr>"

text \<open>The cases \<open>'\r'\<close> and \<open>'\n'\<close> (lines 220 to 262); the result carries \<open>frameOK\<close>.\<close>

definition nmea_terminator :: "env \<Rightarrow> nmea \<Rightarrow> fault + (bool \<times> nmea)" where
  "nmea_terminator e s =
     (if checksum_param s \<noteq> 0 then
        (if length (string s) < 2 then Inl OutOfBounds
         else if nmea_checksum e (string s) = parity s then
           (let st = (gpsStats s)\<lparr>packetCount := packetCount (gpsStats s) + 1\<rparr>
            in if gps_frame s = FRAME_GGA then
                 Inr (True, s\<lparr>gpsSol := commit_gga e (gps_Msg s) (gpsSol s), gpsStats := st,
                               checksum_param := 0\<rparr>)
               else if gps_frame s = FRAME_RMC then
                 Inr (False, s\<lparr>gpsSol := commit_rmc (gps_Msg s) (gpsSol s), gpsStats := st,
                                checksum_param := 0\<rparr>)
               else Inr (False, s\<lparr>gpsStats := st, checksum_param := 0\<rparr>))
         else
           Inr (False, s\<lparr>gpsStats := (gpsStats s)\<lparr>errors := errors (gpsStats s) + 1\<rparr>,
                          checksum_param := 0\<rparr>))
      else Inr (False, s\<lparr>checksum_param := 0\<rparr>))"

text \<open>The \<open>default\<close> case (lines 263 to 270).\<close>

definition nmea_store :: "byte \<Rightarrow> nmea \<Rightarrow> fault + nmea" where
  "nmea_store c s =
     (if offset s < of_nat (NMEA_BUFFER_SIZE - 1) then
        (if length (string s) \<le> unat (offset s) then Inl OutOfBounds
         else Inr (s\<lparr>string := (string s)[unat (offset s) := c], offset := offset s + 1,
                     parity := (if checksum_param s = 0 then parity s XOR c else parity s)\<rparr>))
      else Inr s)"

text \<open>One call of \<open>gpsNewFrameNMEA\<close>: the returned flag \<open>frameOK\<close> and the state after it.\<close>

definition gpsNewFrameNMEA :: "env \<Rightarrow> byte \<Rightarrow> nmea \<Rightarrow> fault + (bool \<times> nmea)" where
  "gpsNewFrameNMEA e c s =
     (if c = 0x24 then Inr (False, s\<lparr>param := 0, offset := 0, parity := 0\<rparr>)
      else if c = 0x2C \<or> c = 0x2A then
        (case nmea_separator e c s of Inl f \<Rightarrow> Inl f | Inr s' \<Rightarrow> Inr (False, s'))
      else if c = 0x0D \<or> c = 0x0A then nmea_terminator e s
      else
        (case nmea_store c s of Inl f \<Rightarrow> Inl f | Inr s' \<Rightarrow> Inr (False, s')))"

text \<open>
  Feeding a byte sequence to the parser one byte at a time, as the receive loop does;
  the result lists the flag returned for each byte.
\<close>

fun feed :: "env \<Rightarrow> byte list \<Rightarrow> nmea \<Rightarrow> fault + (bool list \<times> nmea)" where
  "feed e [] s = Inr ([], s)"
| "feed e (c # cs) s =
     (case gpsNewFrameNMEA e c s of Inl f \<Rightarrow> Inl f
      | Inr (ok, s') \<Rightarrow>
          (case feed e cs s' of Inl f \<Rightarrow> Inl f
           | Inr (oks, s'') \<Rightarrow> Inr (ok # oks, s'')))"

section \<open>The driver\<close>

subsection \<open>Transport, clock and configuration\<close>

text \<open>
  Modelled from the spec: the serial port (drivers/serial.h and io/serial.h are not under
  src/). The specification gives the transport's interface: a byte-oriented read with a
  "bytes waiting" query, a byte-oriented write with "bytes free" and "transmit buffer
  empty" queries, and a baud-rate-set operation. The port is a receive queue, a transmit
  queue of bounded size and a baud rate; bytes arrive and leave between driver
  invocations. The "bytes waiting" query is the length of the receive queue and the read
  takes its head: the loop of \<open>gpsReceiveData\<close> runs through the queue.
\<close>

record serialPort =
  rxQueue :: "byte list"
  txQueue :: "byte list"
  txSize :: nat
  baudRate :: "32 word"

text \<open>Modelled from the spec: the transport's "bytes free" query (\<open>serialTxBytesFree\<close>, not under src/).\<close>

definition serialTxBytesFree :: "serialPort \<Rightarrow> nat" where
  "serialTxBytesFree p = txSize p - length (txQueue p)"

text \<open>Modelled from the spec: the "transmit buffer empty" query (\<open>isSerialTransmitBufferEmpty\<close>, not under src/).\<close>

definition isSerialTransmitBufferEmpty :: "serialPort \<Rightarrow> bool" where
  "isSerialTransmitBufferEmpty p \<longleftrightarrow> txQueue p = []"

text \<open>Modelled from the spec: the byte-oriented write (\<open>serialWrite\<close>, not under src/).\<close>

definition serialWrite :: "serialPort \<Rightarrow> byte \<Rightarrow> serialPort" where
  "serialWrite p b = p\<lparr>txQueue := txQueue p @ [b]\<rparr>"

text \<open>Modelled from the spec: the write of a command string, byte by byte (\<open>serialPrint\<close>, not under src/).\<close>

definition serialPrint :: "serialPort \<Rightarrow> byte list \<Rightarrow> serialPort" where
  "serialPrint p str = fold (\<lambda>b q. serialWrite q b) str p"

text \<open>Modelled from the spec: the baud-rate-set operation (\<open>serialSetBaudRate\<close>, not under src/).\<close>

definition serialSetBaudRate :: "serialPort \<Rightarrow> 32 word \<Rightarrow> serialPort" where
  "serialSetBaudRate p r = p\<lparr>baudRate := r\<rparr>"

text \<open>
  The enumerations and the receiver data \<open>gpsState\<close> of io/gps.h and io/gps_private.h, with
  the fields this file uses. \<open>GPS_UNKNOWN\<close> and \<open>GPS_LOST_COMMUNICATION\<close> stand for the phases
  the switch of \<open>gpsHandleNMEA\<close> leaves to its \<open>default\<close> case, \<open>GPS_OTHER_PROVIDER\<close> for a
  provider other than the two this file tells apart.
\<close>

datatype gpsState_e =
  GPS_UNKNOWN | GPS_INITIALIZING | GPS_CHANGE_BAUD | GPS_CHECK_VERSION | GPS_CONFIGURE
  | GPS_RECEIVING_DATA | GPS_LOST_COMMUNICATION

datatype gpsProvider_e = GPS_NMEA | GPS_NMEA_PSRF | GPS_OTHER_PROVIDER

datatype gpsAutoBaud_e = GPS_AUTOBAUD_OFF | GPS_AUTOBAUD_ON

datatype gpsAutoConfig_e = GPS_AUTOCONFIG_OFF | GPS_AUTOCONFIG_ON

record gpsConfig_t =
  provider :: gpsProvider_e
  autoBaud :: gpsAutoBaud_e
  autoConfig :: gpsAutoConfig_e

record gpsReceiverData =
  gpsConfig :: gpsConfig_t
  gpsPort :: "serialPort option"
  state :: gpsState_e
  baudrateIndex :: nat
  autoBaudrateIndex :: nat
  autoConfigStep :: byte
  autoConfigPosition :: byte
  lastStateSwitchMs :: "32 word"

text \<open>
  \<open>gpsSetState\<close> and \<open>gpsFinalizeChangeBaud\<close> (io/gps.c) and the baud-rate tables
  \<open>baudRates[gpsToSerialBaudRate[..]]\<close> are not part of this file; they are parameters. The
  two functions are given the value of \<open>millis()\<close> and act on the receiver data.
\<close>

record driver_env =
  gpsSetState :: "gpsState_e \<Rightarrow> 32 word \<Rightarrow> gpsReceiverData \<Rightarrow> gpsReceiverData"
  gpsFinalizeChangeBaud :: "32 word \<Rightarrow> gpsReceiverData \<Rightarrow> gpsReceiverData"
  serial_baud :: "nat \<Rightarrow> 32 word"

text \<open>
  Modelled from the spec: \<open>gpsSetState\<close> (not under src/). "Transitioning phases resets the
  per-phase cursor fields to zero and records the transition timestamp."
\<close>

definition spec_gpsSetState :: "gpsState_e \<Rightarrow> 32 word \<Rightarrow> gpsReceiverData \<Rightarrow> gpsReceiverData" where
  "spec_gpsSetState st now g =
     (if st = state g then g\<lparr>lastStateSwitchMs := now\<rparr>
      else g\<lparr>state := st, autoConfigStep := 0, autoConfigPosition := 0,
             lastStateSwitchMs := now\<rparr>)"

text \<open>
  Modelled from the spec: \<open>gpsFinalizeChangeBaud\<close> (not under src/). With auto-baud
  disabled the sequencer "must transition past CHANGE_BAUD within one invocation, issuing
  no transport writes": the handoff enters the phase that follows \<open>CHANGE_BAUD\<close>.
\<close>

definition spec_gpsFinalizeChangeBaud :: "32 word \<Rightarrow> gpsReceiverData \<Rightarrow> gpsReceiverData" where
  "spec_gpsFinalizeChangeBaud now g = spec_gpsSetState GPS_CHECK_VERSION now g"

text \<open>
  The driver's whole state: the parser's statics with \<open>gpsSol\<close> and \<open>gpsStats\<close>, the receiver
  data, \<open>debug[1]\<close> and the value \<open>millis()\<close> returns during the invocation. Dereferencing
  a null \<open>gpsState.gpsPort\<close> is the fault \<open>NullPort\<close>, an index outside a command table
  \<open>OutOfBounds\<close>.
\<close>

record driver =
  nmea_st :: nmea
  gpsState :: gpsReceiverData
  debug_1 :: "16 word"
  millis :: "32 word"

definition GPS_BAUDRATE_COUNT :: nat where "GPS_BAUDRATE_COUNT = 6"
definition GPS_NMEA_CONFIG_DELAY :: "32 word" where "GPS_NMEA_CONFIG_DELAY = 300"

definition crlf :: "byte list" where "crlf = [0x0D, 0x0A]"

definition mtkInit_BaudData :: "byte list list" where
  "mtkInit_BaudData =
     [bytes ''$PMTK251,115200*1F'' @ crlf, bytes ''$PMTK251,57600*2C'' @ crlf,
      bytes ''$PMTK251,38400*27'' @ crlf, bytes ''$PMTK251,19200*22'' @ crlf,
      bytes ''$PMTK251,9600*17'' @ crlf, bytes ''$PMTK251,4800*14'' @ crlf]"

definition srfInit_BaudData :: "byte list list" where
  "srfInit_BaudData =
     [bytes ''$PSRF100,1,115200,8,1,0*05'' @ crlf, bytes ''$PSRF100,1,57600,8,1,0*36'' @ crlf,
      bytes ''$PSRF100,1,38400,8,1,0*3D'' @ crlf, bytes ''$PSRF100,1,19200,8,1,0*38'' @ crlf,
      bytes ''$PSRF100,1,9600,8,1,0*0D'' @ crlf, bytes ''$PSRF100,1,4800,8,1,0*0E'' @ crlf]"

text \<open>The \<open>uint8_t\<close> arrays include the terminating NUL, which \<open>sizeof\<close> counts.\<close>

definition mtkInit_REPORTRATE_5Hz :: "byte list" where
  "mtkInit_REPORTRATE_5Hz = bytes ''$PMTK220,200*2C'' @ crlf @ [0]"
definition mtkInitStr_REPORTRATE_5Hz :: "byte list" where
  "mtkInitStr_REPORTRATE_5Hz = bytes ''$PMTK220,200*2C'' @ crlf"
definition mtkInit_UPDATERATE_5Hz :: "byte list" where
  "mtkInit_UPDATERATE_5Hz = bytes ''$PMTK300,200,0,0,0,0*2F'' @ crlf @ [0]"
definition mtkInitStr_UPDATERATE_5Hz :: "byte list" where
  "mtkInitStr_UPDATERATE_5Hz = bytes ''$PMTK300,200,0,0,0,0*2F'' @ crlf"
definition srfInit_UPDATERATE_5Hz :: "byte list" where
  "srfInit_UPDATERATE_5Hz = bytes ''$PSRF103,00,6,00,0*23'' @ crlf @ [0]"

subsection \<open>The command sender and the configuration sequencers\<close>

text \<open>
  The \<open>while\<close> loop of \<open>nmeaTransmitAutoConfigCommands\<close> on the port \<open>p\<close> of the receiver
  data \<open>g\<close>; the result carries the returned flag.
\<close>

function nmeaTransmit_loop ::
    "driver_env \<Rightarrow> 32 word \<Rightarrow> byte list \<Rightarrow> serialPort \<Rightarrow> gpsReceiverData \<Rightarrow> bool \<times> gpsReceiverData" where
  "nmeaTransmit_loop x now nmeaCmdBuf p g =
     (if serialTxBytesFree p > 0 then
        (if unat (autoConfigPosition g) < length nmeaCmdBuf then
           nmeaTransmit_loop x now nmeaCmdBuf
             (serialWrite p (nmeaCmdBuf ! unat (autoConfigPosition g)))
             (g\<lparr>autoConfigPosition := autoConfigPosition g + 1\<rparr>)
         else if isSerialTransmitBufferEmpty p then
           (True, gpsSetState x GPS_CONFIGURE now
                    (g\<lparr>gpsPort := Some p, autoConfigStep := autoConfigStep g + 1,
                       autoConfigPosition := 0\<rparr>))
         else (False, g\<lparr>gpsPort := Some p\<rparr>))
      else (False, g\<lparr>gpsPort := Some p\<rparr>))"
  by pat_completeness auto
termination
  by (relation "measure (\<lambda>(x, now, buf, p, g). serialTxBytesFree p)")
     (auto simp: serialTxBytesFree_def serialWrite_def)

declare nmeaTransmit_loop.simps [simp del]

definition nmeaTransmitAutoConfigCommands ::
    "driver_env \<Rightarrow> 32 word \<Rightarrow> byte list \<Rightarrow> gpsReceiverData \<Rightarrow> fault + (bool \<times> gpsReceiverData)" where
  "nmeaTransmitAutoConfigCommands x now nmeaCmdBuf g =
     (case gpsPort g of None \<Rightarrow> Inl NullPort
      | Some p \<Rightarrow> Inr (nmeaTransmit_loop x now nmeaCmdBuf p g))"

text \<open>
  A step of the kind "REPORTRATE check": once the transmit buffer is empty, print the
  command string, advance the step and re-enter \<open>GPS_CONFIGURE\<close>.
\<close>

definition config_check_step ::
    "driver_env \<Rightarrow> 32 word \<Rightarrow> byte list \<Rightarrow> gpsReceiverData \<Rightarrow> fault + gpsReceiverData" where
  "config_check_step x now str g =
     (case gpsPort g of None \<Rightarrow> Inl NullPort
      | Some p \<Rightarrow>
          if isSerialTransmitBufferEmpty p then
            Inr (gpsSetState x GPS_CONFIGURE now
                   (g\<lparr>gpsPort := Some (serialPrint p str), autoConfigStep := autoConfigStep g + 1\<rparr>))
          else Inr g)"

definition gpsConfigure :: "driver_env \<Rightarrow> 32 word \<Rightarrow> gpsReceiverData \<Rightarrow> fault + (bool \<times> gpsReceiverData)" where
  "gpsConfigure x now g =
     (if now - lastStateSwitchMs g < GPS_NMEA_CONFIG_DELAY then Inr (False, g)
      else if autoConfigStep g = 0 then
        (case nmeaTransmitAutoConfigCommands x now mtkInit_REPORTRATE_5Hz g of
           Inl f \<Rightarrow> Inl f | Inr (_, g') \<Rightarrow> Inr (False, g'))
      else if autoConfigStep g = 1 then
        (case config_check_step x now mtkInitStr_REPORTRATE_5Hz g of
           Inl f \<Rightarrow> Inl f | Inr g' \<Rightarrow> Inr (False, g'))
      else if autoConfigStep g = 2 then
        (case nmeaTransmitAutoConfigCommands x now mtkInit_UPDATERATE_5Hz g of
           Inl f \<Rightarrow> Inl f | Inr (_, g') \<Rightarrow> Inr (False, g'))
      else if autoConfigStep g = 3 then
        (case config_check_step x now mtkInitStr_UPDATERATE_5Hz g of
           Inl f \<Rightarrow> Inl f | Inr g' \<Rightarrow> Inr (False, g'))
      else Inr (False, gpsSetState x GPS_RECEIVING_DATA now g))"

definition gpsConfigure_PSRF :: "driver_env \<Rightarrow> 32 word \<Rightarrow> gpsReceiverData \<Rightarrow> fault + (bool \<times> gpsReceiverData)" where
  "gpsConfigure_PSRF x now g =
     (if now - lastStateSwitchMs g < GPS_NMEA_CONFIG_DELAY then Inr (False, g)
      else if autoConfigStep g = 0 then
        (case nmeaTransmitAutoConfigCommands x now srfInit_UPDATERATE_5Hz g of
           Inl f \<Rightarrow> Inl f | Inr (_, g') \<Rightarrow> Inr (False, g'))
      else Inr (False, gpsSetState x GPS_RECEIVING_DATA now g))"

subsection \<open>Receiving, baud negotiation and the state machine\<close>

text \<open>
  The \<open>while\<close> loop of \<open>gpsReceiveData\<close> over the bytes waiting in the port, with the flag
  \<open>hasNewData\<close>.
\<close>

fun receive_loop :: "env \<Rightarrow> byte list \<Rightarrow> bool \<Rightarrow> nmea \<Rightarrow> fault + (bool \<times> nmea)" where
  "receive_loop e [] hasNewData s = Inr (hasNewData, s)"
| "receive_loop e (newChar # rx) hasNewData s =
     (case gpsNewFrameNMEA e newChar s of Inl f \<Rightarrow> Inl f
      | Inr (frameOK, s') \<Rightarrow>
          if frameOK then
            receive_loop e rx True
              (s'\<lparr>gpsSol := (gpsSol s')\<lparr>flags := (flags (gpsSol s'))
                 \<lparr>gpsHeartbeat := \<not> gpsHeartbeat (flags (gpsSol s')),
                  validVelNE := False, validVelD := False\<rparr>\<rparr>\<rparr>)
          else receive_loop e rx hasNewData s')"

definition gpsReceiveData :: "env \<Rightarrow> driver \<Rightarrow> fault + (bool \<times> driver)" where
  "gpsReceiveData e d =
     (case gpsPort (gpsState d) of None \<Rightarrow> Inr (False, d)
      | Some p \<Rightarrow>
          (case receive_loop e (rxQueue p) False (nmea_st d) of Inl f \<Rightarrow> Inl f
           | Inr (hasNewData, s') \<Rightarrow>
               Inr (hasNewData,
                    d\<lparr>nmea_st := s',
                      gpsState := (gpsState d)\<lparr>gpsPort := Some (p\<lparr>rxQueue := []\<rparr>)\<rparr>\<rparr>)))"

definition gpsInitialize :: "driver_env \<Rightarrow> driver \<Rightarrow> bool \<times> driver" where
  "gpsInitialize x d = (False, d\<lparr>gpsState := gpsSetState x GPS_CHANGE_BAUD (millis d) (gpsState d)\<rparr>)"

definition GPS_BAUD_CHANGE_DELAY :: "32 word" where "GPS_BAUD_CHANGE_DELAY = 200"

definition gpsChangeBaud :: "driver_env \<Rightarrow> driver \<Rightarrow> fault + (bool \<times> driver)" where
  "gpsChangeBaud x d =
     (let g = gpsState d in
      if autoBaud (gpsConfig g) \<noteq> GPS_AUTOBAUD_OFF \<and> autoBaudrateIndex g < GPS_BAUDRATE_COUNT then
        (if millis d - lastStateSwitchMs g \<ge> GPS_BAUD_CHANGE_DELAY then
           (case gpsPort g of None \<Rightarrow> Inl NullPort
            | Some p \<Rightarrow>
                if isSerialTransmitBufferEmpty p then
                  (if GPS_BAUDRATE_COUNT \<le> baudrateIndex g then Inl OutOfBounds
                   else
                     let p1 = serialSetBaudRate p (serial_baud x (autoBaudrateIndex g));
                         p2 = (if provider (gpsConfig g) = GPS_NMEA_PSRF
                               then serialPrint p1 (srfInit_BaudData ! baudrateIndex g)
                               else serialPrint p1 (mtkInit_BaudData ! baudrateIndex g));
                         g' = g\<lparr>gpsPort := Some p2, autoBaudrateIndex := autoBaudrateIndex g + 1\<rparr>
                     in Inr (False,
                             d\<lparr>gpsState := gpsSetState x GPS_CHANGE_BAUD (millis d) g',
                               debug_1 := of_nat (baudrateIndex g)\<rparr>))
                else Inr (False, d))
         else Inr (False, d))
      else Inr (False, d\<lparr>gpsState := gpsFinalizeChangeBaud x (millis d) g\<rparr>))"

definition gpsHandleNMEA :: "driver_env \<Rightarrow> env \<Rightarrow> driver \<Rightarrow> fault + (bool \<times> driver)" where
  "gpsHandleNMEA x e d0 =
     (case gpsReceiveData e d0 of Inl f \<Rightarrow> Inl f
      | Inr (hasNewData, d) \<Rightarrow>
          (case state (gpsState d) of
             GPS_INITIALIZING \<Rightarrow> Inr (gpsInitialize x d)
           | GPS_CHANGE_BAUD \<Rightarrow> gpsChangeBaud x d
           | GPS_CHECK_VERSION \<Rightarrow>
               (if autoConfig (gpsConfig (gpsState d)) = GPS_AUTOCONFIG_OFF then
                  Inr (False, d\<lparr>gpsState := gpsSetState x GPS_RECEIVING_DATA (millis d) (gpsState d)\<rparr>)
                else
                  (case (if provider (gpsConfig (gpsState d)) = GPS_NMEA_PSRF
                         then gpsConfigure_PSRF x (millis d) (gpsState d)
                         else gpsConfigure x (millis d) (gpsState d)) of
                     Inl f \<Rightarrow> Inl f | Inr (r, g') \<Rightarrow> Inr (r, d\<lparr>gpsState := g'\<rparr>)))
           | GPS_CONFIGURE \<Rightarrow>
               (if autoConfig (gpsConfig (gpsState d)) = GPS_AUTOCONFIG_OFF then
                  Inr (False, d\<lparr>gpsState := gpsSetState x GPS_RECEIVING_DATA (millis d) (gpsState d)\<rparr>)
                else
                  (case (if provider (gpsConfig (gpsState d)) = GPS_NMEA_PSRF
                         then gpsConfigure_PSRF x (millis d) (gpsState d)
                         else gpsConfigure x (millis d) (gpsState d)) of
                     Inl f \<Rightarrow> Inl f | Inr (r, g') \<Rightarrow> Inr (r, d\<lparr>gpsState := g'\<rparr>)))
           | GPS_RECEIVING_DATA \<Rightarrow> Inr (hasNewData, d)
           | _ \<Rightarrow> Inr (False, d)))"

text \<open>
  Between two invocations bytes arrive, queued bytes are sent and the clock moves; a
  sequence of such inputs drives a sequence of invocations of \<open>gpsHandleNMEA\<close>.
\<close>

record tick_input =
  arrived :: "byte list"
  sent :: nat
  clock :: "32 word"

definition before_tick :: "tick_input \<Rightarrow> driver \<Rightarrow> driver" where
  "before_tick i d =
     d\<lparr>millis := clock i,
       gpsState := (gpsState d)\<lparr>gpsPort :=
         map_option (\<lambda>p. p\<lparr>rxQueue := rxQueue p @ arrived i, txQueue := drop (sent i) (txQueue p)\<rparr>)
           (gpsPort (gpsState d))\<rparr>\<rparr>"

fun run_ticks :: "driver_env \<Rightarrow> env \<Rightarrow> tick_input list \<Rightarrow> driver \<Rightarrow> fault + (bool list \<times> driver)" where
  "run_ticks x e [] d = Inr ([], d)"
| "run_ticks x e (i # is) d =
     (case gpsHandleNMEA x e (before_tick i d) of Inl f \<Rightarrow> Inl f
      | Inr (r, d') \<Rightarrow>
          (case run_ticks x e is d' of Inl f \<Rightarrow> Inl f
           | Inr (rs, d'') \<Rightarrow> Inr (r # rs, d'')))"

section \<open>Sentences\<close>

text \<open>
  The vocabulary in which the properties of the parser are stated. A sentence is
  \<open>$\<close>, its fields joined by commas (the first field is the identifier), \<open>*\<close> and the
  two checksum characters; \<open>join_fields\<close> gives the bytes between \<open>$\<close> and \<open>*\<close>.
\<close>

fun join_fields :: "byte list list \<Rightarrow> byte list" where
  "join_fields [] = []"
| "join_fields [f] = f"
| "join_fields (f # g # fs) = f @ 0x2C # join_fields (g # fs)"

definition sentence :: "byte list list \<Rightarrow> byte list \<Rightarrow> byte list" where
  "sentence fs ck = 0x24 # join_fields fs @ 0x2A # ck"

text \<open>The exclusive-or of a byte sequence.\<close>

primrec xor_bytes :: "byte list \<Rightarrow> byte" where
  "xor_bytes [] = 0"
| "xor_bytes (b # bs) = b XOR xor_bytes bs"

text \<open>Upper-case hexadecimal digits and their values.\<close>

definition is_hex :: "byte \<Rightarrow> bool" where
  "is_hex c \<longleftrightarrow> (0x30 \<le> c \<and> c \<le> 0x39) \<or> (0x41 \<le> c \<and> c \<le> 0x46)"

definition hex_nat :: "byte \<Rightarrow> nat" where
  "hex_nat c = (if c \<le> 0x39 then unat c - 0x30 else unat c - 0x37)"

text \<open>
  A field the parser stores whole: at most 15 bytes (the capacity of \<open>string\<close> less the
  terminator), none of them NUL or one of the five bytes the parser switches on, and, when
  it fills the buffer, not ending in a decimal point (for such a field \<open>grab_fields\<close> with one
  fractional digit writes \<open>string[16]\<close>).
\<close>

definition field_byte :: "byte \<Rightarrow> bool" where
  "field_byte c \<longleftrightarrow> c \<noteq> 0 \<and> c \<noteq> 0x24 \<and> c \<noteq> 0x2C \<and> c \<noteq> 0x2A \<and> c \<noteq> 0x0D \<and> c \<noteq> 0x0A"

definition wf_field :: "byte list \<Rightarrow> bool" where
  "wf_field f \<longleftrightarrow>
     length f \<le> NMEA_BUFFER_SIZE - 1 \<and> list_all field_byte f \<and>
     (length f = NMEA_BUFFER_SIZE - 1 \<longrightarrow> last f \<noteq> 0x2E)"

text \<open>
  A field of any length: the parser records its first 15 bytes and drops the rest
  (line 264). \<open>storable\<close> asks of the recorded part what \<open>wf_field\<close> asks of a whole field.
\<close>

definition recorded :: "byte list \<Rightarrow> byte list" where
  "recorded f = take (NMEA_BUFFER_SIZE - 1) f"

definition storable :: "byte list \<Rightarrow> bool" where
  "storable f \<longleftrightarrow>
     list_all field_byte f \<and> (NMEA_BUFFER_SIZE - 1 \<le> length f \<longrightarrow> f ! (NMEA_BUFFER_SIZE - 2) \<noteq> 0x2E)"

text \<open>The first character of a field as the parser reads it, \<open>string[0]\<close>: NUL for an empty field.\<close>

definition first_char :: "byte list \<Rightarrow> byte" where
  "first_char f = (case f of [] \<Rightarrow> 0 | c # _ \<Rightarrow> c)"

text \<open>
  The value \<open>grab_fields\<close> decodes from a field, held NUL-terminated in a cleared buffer of
  the parser's size.
\<close>

definition field_value :: "byte list \<Rightarrow> byte \<Rightarrow> 32 word" where
  "field_value f mult =
     (case grab_fields (f @ replicate (NMEA_BUFFER_SIZE - length f) 0) mult of
        Inl _ \<Rightarrow> 0 | Inr (v, _) \<Rightarrow> v)"

text \<open>
  The state of the parser's statics at power-on (C zero-initialises them), beside a given
  navigation solution and statistics.
\<close>

definition nmea_init :: "gpsSolutionData \<Rightarrow> gpsStatistics \<Rightarrow> nmea" where
  "nmea_init sol st =
     \<lparr>gps_Msg = \<lparr>fix_flag = False, latitude = 0, longitude = 0, numSat = 0, altitude = 0,
                 speed = 0, ground_course = 0, hdop = 0\<rparr>,
      param = 0, offset = 0, parity = 0, string = replicate NMEA_BUFFER_SIZE 0,
      checksum_param = 0, gps_frame = NO_FRAME, gpsSol = sol, gpsStats = st\<rparr>"

text \<open>
  A sample instantiation of the external collaborators and of the shared records, used
  for the worked examples: the coordinate conversion is replaced by the number read from
  the leading digits of the field, the two constraints clamp at 9999 and the multiplier is 2.
\<close>

definition sample_coord :: "byte list \<Rightarrow> 32 word" where
  "sample_coord f = foldl (\<lambda>a c. a * 10 + ucast (c - 0x30)) 0 (takeWhile is_digit f)"

definition sample_constrain :: "32 word \<Rightarrow> 16 word" where
  "sample_constrain x = (if x > 9999 then 9999 else ucast x)"

definition sample_env :: env where
  "sample_env =
     \<lparr>GPS_coord_to_degrees = sample_coord, gpsConstrainHDOP = sample_constrain,
      gpsConstrainEPE = sample_constrain, GPS_HDOP_TO_EPH_MULTIPLIER = 2,
      char_is_signed = False\<rparr>"

definition sample_sol :: gpsSolutionData where
  "sample_sol =
     \<lparr>flags = \<lparr>gpsHeartbeat = False, validVelNE = True, validVelD = True, validEPE = True\<rparr>,
      fixType = GPS_FIX_2D, sol_numSat = 3, llh = \<lparr>lat = 11, lon = 22, alt = 33\<rparr>,
      groundSpeed = 44, groundCourse = 55, eph = 66, epv = 77, sol_hdop = 88\<rparr>"

definition sample_stats :: gpsStatistics where
  "sample_stats = \<lparr>errors = 5, packetCount = 9\<rparr>"

section \<open>Auxiliary functions for the proofs\<close>

text \<open>
  What one loop iteration of \<open>grab_fields\<close> adds to the accumulator, and the value the
  loop computes from a NUL-free field for a fractional-digit count of 0 or 1 (the two
  counts the parser uses), as a recursion over the field.
\<close>

definition digit_acc :: "byte \<Rightarrow> 32 word \<Rightarrow> 32 word" where
  "digit_acc c tmp = (if is_digit c then tmp * 10 + ucast (c - 0x30) else tmp * 10)"

fun dec :: "byte \<Rightarrow> byte list \<Rightarrow> 32 word \<Rightarrow> 32 word" where
  "dec m [] tmp = tmp"
| "dec m (c # cs) tmp =
     (if c = 0x2E then (if m = 0 then tmp else digit_acc (first_char cs) tmp)
      else dec m cs (digit_acc c tmp))"

text \<open>Replacing every byte that is not NUL, a digit or a decimal point by the digit \<open>0\<close>.\<close>

definition zero_fill :: "byte \<Rightarrow> byte" where
  "zero_fill c = (if c = 0 \<or> c = 0x2E \<or> is_digit c then c else 0x30)"

definition zero_fill_result :: "fault + (32 word \<times> byte list) \<Rightarrow> fault + (32 word \<times> byte list)" where
  "zero_fill_result r = (case r of Inl f \<Rightarrow> Inl f | Inr (v, b) \<Rightarrow> Inr (v, map zero_fill b))"

text \<open>
  The effect of one stored field on the pending record, as a function of the field: the
  two \<open>param\<close> switches of the parser with the buffer replaced by the field it holds.
\<close>

definition field_msg :: "env \<Rightarrow> byte \<Rightarrow> byte \<Rightarrow> byte list \<Rightarrow> gpsDataNmea \<Rightarrow> gpsDataNmea" where
  "field_msg e frame p f m =
     (if frame = FRAME_GGA then
        (if p = 2 then m\<lparr>latitude := GPS_coord_to_degrees e f\<rparr>
         else if p = 3 then (if first_char f = 0x53 then m\<lparr>latitude := latitude m * (-1)\<rparr> else m)
         else if p = 4 then m\<lparr>longitude := GPS_coord_to_degrees e f\<rparr>
         else if p = 5 then (if first_char f = 0x57 then m\<lparr>longitude := longitude m * (-1)\<rparr> else m)
         else if p = 6 then m\<lparr>fix_flag := (char_val e (first_char f) > 0x30)\<rparr>
         else if p = 7 then m\<lparr>numSat := ucast (field_value f 0)\<rparr>
         else if p = 8 then m\<lparr>hdop := ucast (field_value f 1 * 10)\<rparr>
         else if p = 9 then m\<lparr>altitude := ucast (field_value f 1 * 10)\<rparr>
         else m)
      else if frame = FRAME_RMC then
        (if p = 7 then m\<lparr>speed := ucast ((field_value f 1 * 5144) div 1000)\<rparr>
         else if p = 8 then m\<lparr>ground_course := ucast (field_value f 1)\<rparr>
         else m)
      else m)"

text \<open>
  The field index, sentence type and pending record after a list of fields, from the
  values before it.
\<close>

fun fields_fold :: "env \<Rightarrow> byte list list \<Rightarrow> byte \<times> byte \<times> gpsDataNmea \<Rightarrow> byte \<times> byte \<times> gpsDataNmea" where
  "fields_fold e [] x = x"
| "fields_fold e (f # fs) (p, fr, m) =
     (let fr' = (if p = 0 then frame_ident (f @ [0]) else fr)
      in fields_fold e fs (p + 1, fr', field_msg e fr' p f m))"

text \<open>
  The parser state after a stored field and its separator, after all fields of a sentence
  up to the \<open>*\<close>, and after the two checksum characters; \<open>str\<close> is what is left in the
  buffer.
\<close>

definition after_field :: "env \<Rightarrow> byte \<Rightarrow> byte list \<Rightarrow> byte list \<Rightarrow> nmea \<Rightarrow> nmea" where
  "after_field e c f str s =
     (let fr = (if param s = 0 then frame_ident (f @ [0]) else gps_frame s)
      in s\<lparr>gps_Msg := field_msg e fr (param s) f (gps_Msg s), param := param s + 1, offset := 0,
            parity := (if c = 0x2A then (if checksum_param s = 0 then parity s XOR xor_bytes f else parity s)
                       else (if checksum_param s = 0 then parity s XOR xor_bytes f else parity s) XOR c),
            string := str,
            checksum_param := (if c = 0x2A then 1 else checksum_param s),
            gps_frame := fr\<rparr>)"

definition body_state :: "env \<Rightarrow> byte list list \<Rightarrow> byte list \<Rightarrow> nmea \<Rightarrow> nmea" where
  "body_state e fs str s =
     (case fields_fold e fs (param s, gps_frame s, gps_Msg s) of
        (p, fr, m) \<Rightarrow>
          s\<lparr>gps_Msg := m, param := p, offset := 0,
            parity := parity s XOR xor_bytes (join_fields fs), string := str,
            checksum_param := 1, gps_frame := fr\<rparr>)"

definition term_state :: "env \<Rightarrow> byte list list \<Rightarrow> byte \<Rightarrow> byte \<Rightarrow> byte list \<Rightarrow> nmea \<Rightarrow> nmea" where
  "term_state e fs h1 h2 str s =
     (case fields_fold e fs (0, gps_frame s, gps_Msg s) of
        (p, fr, m) \<Rightarrow>
          s\<lparr>gps_Msg := m, param := p, offset := 2,
            parity := xor_bytes (join_fields fs), string := h1 # h2 # str,
            checksum_param := 1, gps_frame := fr\<rparr>)"

text \<open>The identifiers of the two sentence types the parser decodes.\<close>

definition is_gga :: "byte list \<Rightarrow> bool" where
  "is_gga ident \<longleftrightarrow> ident = bytes ''GPGGA'' \<or> ident = bytes ''GNGGA''"

definition is_rmc :: "byte list \<Rightarrow> bool" where
  "is_rmc ident \<longleftrightarrow> ident = bytes ''GPRMC'' \<or> ident = bytes ''GNRMC''"

text \<open>
  The pending record after the fields of a fix-data sentence and of a
  recommended-minimum-data sentence, from the record before it.
\<close>

definition gga_msg :: "env \<Rightarrow> byte list \<Rightarrow> byte list \<Rightarrow> byte list \<Rightarrow> byte list \<Rightarrow> byte list \<Rightarrow>
    byte list \<Rightarrow> byte list \<Rightarrow> byte list \<Rightarrow> gpsDataNmea \<Rightarrow> gpsDataNmea" where
  "gga_msg e f2 f3 f4 f5 f6 f7 f8 f9 m =
     m\<lparr>latitude := (if first_char f3 = 0x53 then GPS_coord_to_degrees e f2 * (-1)
                     else GPS_coord_to_degrees e f2),
       longitude := (if first_char f5 = 0x57 then GPS_coord_to_degrees e f4 * (-1)
                     else GPS_coord_to_degrees e f4),
       fix_flag := (char_val e (first_char f6) > 0x30),
       numSat := ucast (field_value f7 0),
       hdop := ucast (field_value f8 1 * 10),
       altitude := ucast (field_value f9 1 * 10)\<rparr>"

definition rmc_msg :: "byte list \<Rightarrow> byte list \<Rightarrow> gpsDataNmea \<Rightarrow> gpsDataNmea" where
  "rmc_msg f7 f8 m =
     m\<lparr>speed := ucast ((field_value f7 1 * 5144) div 1000),
       ground_course := ucast (field_value f8 1)\<rparr>"

text \<open>
  Worked examples: the fix-data sentence of the specification's end-to-end scenario, the
  same sentence with fix indicator 0, and a recommended-minimum-data sentence with a
  speed of 100.0 and of 2000.0 knots.
\<close>

definition example_gga :: "byte list list" where
  "example_gga = map bytes
     [''GPGGA'', ''123519'', ''4807.038'', ''N'', ''01131.000'', ''E'', ''1'', ''08'', ''0.9'',
      ''545.4'', ''M'', ''46.9'', ''M'', '''', '''']"

definition example_gga_nofix :: "byte list list" where
  "example_gga_nofix = map bytes
     [''GPGGA'', ''123519'', ''4807.038'', ''N'', ''01131.000'', ''E'', ''0'', ''05'', ''0.9'',
      ''545.4'', ''M'', ''46.9'', ''M'', '''', '''']"

definition example_rmc :: "byte list list" where
  "example_rmc = map bytes
     [''GPRMC'', ''123519'', ''A'', ''4807.038'', ''N'', ''01131.000'', ''E'', ''100.0'', ''084.4'',
      ''230394'', ''003.1'', ''W'']"

definition example_rmc_fast :: "byte list list" where
  "example_rmc_fast = map bytes
     [''GPRMC'', ''123519'', ''A'', ''4807.038'', ''N'', ''01131.000'', ''E'', ''2000.0'', ''084.4'',
      ''230394'', ''003.1'', ''W'']"

text \<open>A sample driver: the parameters taken from the specification, a port and two states.\<close>

definition sample_denv :: driver_env where
  "sample_denv =
     \<lparr>gpsSetState = spec_gpsSetState, gpsFinalizeChangeBaud = spec_gpsFinalizeChangeBaud,
      serial_baud = (\<lambda>i. [115200, 57600, 38400, 19200, 9600, 4800] ! i)\<rparr>"

definition sample_port :: serialPort where
  "sample_port = \<lparr>rxQueue = [], txQueue = [], txSize = 64, baudRate = 9600\<rparr>"

definition sample_driver :: "gpsState_e \<Rightarrow> driver" where
  "sample_driver st =
     \<lparr>nmea_st = nmea_init sample_sol sample_stats,
      gpsState =
        \<lparr>gpsConfig = \<lparr>provider = GPS_NMEA, autoBaud = GPS_AUTOBAUD_OFF, autoConfig = GPS_AUTOCONFIG_ON\<rparr>,
         gpsPort = Some sample_port, state = st, baudrateIndex = 0, autoBaudrateIndex = 0,
         autoConfigStep = 0, autoConfigPosition = 0, lastStateSwitchMs = 0\<rparr>,
      debug_1 = 0, millis = 0\<rparr>"

text \<open>The two velocity validity flags of the navigation solution a parser state holds.\<close>

abbreviation velNE :: "nmea \<Rightarrow> bool" where
  "velNE s \<equiv> validVelNE (flags (gpsSol s))"

abbreviation velD :: "nmea \<Rightarrow> bool" where
  "velD s \<equiv> validVelD (flags (gpsSol s))"

text \<open>
  The example fix-data sentence with a time field of 16 bytes: its last byte is not
  recorded.
\<close>

definition example_gga_long :: "byte list list" where
  "example_gga_long = map bytes
     [''GPGGA'', ''1235190000000000'', ''4807.038'', ''N'', ''01131.000'', ''E'', ''1'', ''08'',
      ''0.9'', ''545.4'', ''M'', ''46.9'', ''M'', [], []]"

section \<open>Properties of the field decoder\<close>

lemma is_digit_not_special: "is_digit c \<Longrightarrow> c \<noteq> 0 \<and> c \<noteq> 0x2E"
  by (auto simp: is_digit_def)

lemma grab_loop_digits:
  assumes "16 \<le> length src" and "\<forall>k. i \<le> k \<and> k \<le> 15 \<longrightarrow> is_digit (src ! k)" and "i \<le> 15"
  shows "grab_loop src m i tmp = Inr (0, src)"
  using assms
proof (induction "15 - i" arbitrary: i tmp)
  case 0
  then have i: "i = 15" by simp
  from 0 i have d: "is_digit (src ! 15)" by simp
  show ?case using 0(2) d is_digit_not_special[OF d] unfolding i
    by (subst grab_loop.simps) (simp add: Let_def)
next
  case (Suc n)
  then have lt: "i < 15" by simp
  have d: "is_digit (src ! i)" using Suc.prems by simp
  have "grab_loop src m (Suc i) (grab_digit src i tmp) = Inr (0, src)"
    using Suc by (intro Suc.hyps(1)) auto
  then show ?case using lt Suc.prems(1) is_digit_not_special[OF d]
    by (subst grab_loop.simps) (simp add: Let_def)
qed

lemma grab_loop_frame:
  "grab_loop src m i tmp = Inr (v, src') \<Longrightarrow>
     length src' = length src \<and> (\<forall>k. src' ! k = src ! k \<or> src' ! k = 0) \<and> (m = 0 \<longrightarrow> src' = src)"
proof (induction src m i tmp rule: grab_loop.induct)
  case (1 src mult i tmp)
  note eq = "1.prems"[unfolded grab_loop.simps[of src mult i tmp]]
  show ?case
  proof (cases "length src \<le> i \<or> src ! i = 0 \<or> (src ! i = 0x2E \<and> mult = 0)")
    case True
    with eq show ?thesis by (auto split: if_splits)
  next
    case False
    then have f1: "\<not> length src \<le> i" and f2: "src ! i \<noteq> 0" and f3: "src ! i = 0x2E \<Longrightarrow> mult \<noteq> 0"
      by auto
    show ?thesis
    proof (cases "src ! i = 0x2E")
      case dot: True
      let ?src = "src[Suc i + unat mult := 0]"
      note m0 = f3[OF dot]
      from eq f1 f2 dot m0 have nb: "\<not> length src \<le> Suc i + unat mult"
        by (auto split: if_splits)
      have upd: "length ?src = length src" "\<And>k. ?src ! k = src ! k \<or> ?src ! k = 0"
        using nb by (auto simp: nth_list_update)
      show ?thesis
      proof (cases "15 \<le> Suc i")
        case True
        with eq f1 f2 dot m0 nb have "src' = ?src"
          by (auto simp: Let_def split: if_splits)
        with upd m0 show ?thesis by simp
      next
        case False
        with eq f1 f2 dot m0 nb
        have "grab_loop ?src mult (Suc (Suc i)) (grab_digit ?src (Suc i) tmp) = Inr (v, src')"
          by (auto simp: Let_def split: if_splits)
        from "1.IH"(1)[OF f1 f2 dot m0 nb refl refl False this]
        have "length src' = length ?src" "\<And>k. src' ! k = ?src ! k \<or> src' ! k = 0" by auto
        with upd m0 show ?thesis by metis
      qed
    next
      case nodot: False
      show ?thesis
      proof (cases "15 \<le> i")
        case True
        with eq f1 f2 nodot show ?thesis
          by (auto simp: Let_def split: if_splits)
      next
        case False
        with eq f1 f2 nodot
        have "grab_loop src mult (Suc i) (grab_digit src i tmp) = Inr (v, src')"
          by (auto simp: Let_def split: if_splits)
        from "1.IH"(2)[OF f1 f2 nodot refl False this]
        show ?thesis by auto
      qed
    qed
  qed
qed

lemma zero_fill_result_simps [simp]:
  "zero_fill_result (Inl e) = Inl e"
  "zero_fill_result (Inr (v, b)) = Inr (v, map zero_fill b)"
  by (simp_all add: zero_fill_result_def)

lemma zero_fill_simps [simp]:
  "zero_fill 0 = 0" "zero_fill c = 0 \<longleftrightarrow> c = 0" "zero_fill c = 0x2E \<longleftrightarrow> c = 0x2E"
  by (auto simp: zero_fill_def is_digit_def)

lemma zero_fill_update: "(map zero_fill src)[k := 0] = map zero_fill (src[k := 0])"
  by (simp add: map_update)

lemma grab_digit_zero_fill:
  "i < length src \<Longrightarrow> grab_digit (map zero_fill src) i tmp = grab_digit src i tmp"
  by (auto simp: grab_digit_def zero_fill_def is_digit_def Let_def)

lemma grab_loop_zero_fill:
  "grab_loop (map zero_fill src) m i tmp = zero_fill_result (grab_loop src m i tmp)"
proof (induction src m i tmp rule: grab_loop.induct)
  case (1 src mult i tmp)
  note unf = grab_loop.simps[of "map zero_fill src" mult i tmp] grab_loop.simps[of src mult i tmp]
  show ?case
  proof (cases "length src \<le> i \<or> src ! i = 0 \<or> (src ! i = 0x2E \<and> mult = 0)")
    case True
    then show ?thesis
      by (auto simp: unf)
  next
    case False
    then have f1: "\<not> length src \<le> i" and f2: "src ! i \<noteq> 0" and f3: "src ! i = 0x2E \<Longrightarrow> mult \<noteq> 0"
      by auto
    show ?thesis
    proof (cases "src ! i = 0x2E")
      case dot: True
      note m0 = f3[OF dot]
      show ?thesis
      proof (cases "length src \<le> Suc i + unat mult")
        case True
        with f1 f2 dot m0 show ?thesis
          by (auto simp: unf)
      next
        case nb: False
        define src1 where "src1 = src[Suc (i + unat mult) := 0]"
        have si: "Suc i < length src1" using nb by (simp add: src1_def)
        have upd: "(map zero_fill src)[Suc (i + unat mult) := 0] = map zero_fill src1"
          unfolding src1_def by (rule zero_fill_update)
        show ?thesis
        proof (cases "15 \<le> Suc i")
          case True
          with f1 f2 dot m0 nb show ?thesis
            unfolding unf by (simp add: Let_def upd flip: src1_def)
        next
          case False
          note ih = "1.IH"(1)[OF f1 f2 dot m0 nb refl refl False, unfolded add_Suc, folded src1_def]
          have "grab_loop (map zero_fill src) mult i tmp =
                grab_loop (map zero_fill src1) mult (Suc (Suc i)) (grab_digit (map zero_fill src1) (Suc i) tmp)"
            using f1 f2 dot m0 nb False unfolding unf by (simp add: Let_def upd)
          also have "\<dots> = zero_fill_result (grab_loop src1 mult (Suc (Suc i)) (grab_digit src1 (Suc i) tmp))"
            unfolding grab_digit_zero_fill[OF si] by (rule ih)
          also have "\<dots> = zero_fill_result (grab_loop src mult i tmp)"
            using f1 f2 dot m0 nb False unfolding unf by (simp add: Let_def flip: src1_def)
          finally show ?thesis .
        qed
      qed
    next
      case nodot: False
      have il: "i < length src" using f1 by simp
      show ?thesis
      proof (cases "15 \<le> i")
        case True
        with f1 f2 nodot show ?thesis
          by (simp add: unf Let_def)
      next
        case False
        note ih = "1.IH"(2)[OF f1 f2 nodot refl False]
        from f1 f2 nodot False show ?thesis
          by (simp add: unf Let_def grab_digit_zero_fill[OF il] ih)
      qed
    qed
  qed
qed

lemma grab_digit_acc: "grab_digit src i tmp = digit_acc (src ! i) tmp"
  by (simp add: grab_digit_def digit_acc_def Let_def)

lemma grab_loop_nul:
  "i < length src \<Longrightarrow> src ! i = 0 \<Longrightarrow> grab_loop src m i tmp = Inr (tmp, src)"
  by (subst grab_loop.simps) simp

lemma grab_loop_dot0:
  "i < length src \<Longrightarrow> src ! i = 0x2E \<Longrightarrow> grab_loop src 0 i tmp = Inr (tmp, src)"
  by (subst grab_loop.simps) simp

lemma grab_loop_dot:
  "Suc i + unat m < length src \<Longrightarrow> src ! i = 0x2E \<Longrightarrow> m \<noteq> 0 \<Longrightarrow> i < 14 \<Longrightarrow>
   grab_loop src m i tmp =
     grab_loop (src[Suc i + unat m := 0]) m (Suc (Suc i))
       (digit_acc (src[Suc i + unat m := 0] ! Suc i) tmp)"
  by (subst grab_loop.simps) (simp add: Let_def grab_digit_acc)

lemma grab_loop_char:
  "i < length src \<Longrightarrow> src ! i \<noteq> 0 \<Longrightarrow> src ! i \<noteq> 0x2E \<Longrightarrow> i < 15 \<Longrightarrow>
   grab_loop src m i tmp = grab_loop src m (Suc i) (digit_acc (src ! i) tmp)"
  by (subst grab_loop.simps) (simp add: Let_def grab_digit_acc)

lemma grab_loop_digits_prefix:
  assumes "list_all is_digit ds" and "length pre + length ds \<le> 15"
  shows "grab_loop (pre @ ds @ rest) m (length pre) tmp =
           grab_loop (pre @ ds @ rest) m (length pre + length ds)
             (foldl (\<lambda>t c. t * 10 + ucast (c - 0x30)) tmp ds)"
  using assms
proof (induction ds arbitrary: pre tmp)
  case Nil
  then show ?case by simp
next
  case (Cons c cs)
  have d: "is_digit c" using Cons.prems(1) by simp
  have lt: "length pre < 15" using Cons.prems(2) by simp
  have nth: "(pre @ (c # cs) @ rest) ! length pre = c" by simp
  have "grab_loop (pre @ (c # cs) @ rest) m (length pre) tmp =
          grab_loop (pre @ (c # cs) @ rest) m (Suc (length pre)) (digit_acc c tmp)"
    using grab_loop_char[of "length pre" "pre @ (c # cs) @ rest" m tmp]
      is_digit_not_special[OF d] lt unfolding nth by simp
  also have "\<dots> = grab_loop ((pre @ [c]) @ cs @ rest) m (length (pre @ [c])) (digit_acc c tmp)"
    by simp
  also have "\<dots> = grab_loop ((pre @ [c]) @ cs @ rest) m (length (pre @ [c]) + length cs)
                        (foldl (\<lambda>t c. t * 10 + ucast (c - 0x30)) (digit_acc c tmp) cs)"
    using Cons.prems by (intro Cons.IH) simp_all
  finally show ?case using d by (simp add: digit_acc_def)
qed

lemma grab_fields_point_bound:
  assumes ds: "list_all is_digit ds" and es: "list_all is_digit es"
    and m: "m \<noteq> 0" and p: "length ds \<le> 15"
    and le: "15 \<le> length ds + length es" and z: "15 \<le> length ds + unat m"
    and len: "Suc (length ds) + unat m < length (ds @ 0x2E # es @ rest)"
  shows "grab_fields (ds @ 0x2E # es @ rest) m =
           Inr (0, (ds @ 0x2E # es @ rest)[Suc (length ds) + unat m := 0])"
proof -
  define src where "src = ds @ 0x2E # es @ rest"
  define src' where "src' = src[Suc (length ds) + unat m := 0]"
  define tmp where "tmp = foldl (\<lambda>t c. t * 10 + ucast (c - 0x30)) (0 :: 32 word) ds"
  have dot: "src ! length ds = 0x2E" by (simp add: src_def)
  have l: "Suc (length ds) + unat m < length src" using len by (simp add: src_def)
  have l16: "16 \<le> length src'" using l z by (simp add: src'_def)
  have "grab_fields src m = grab_loop src m (length ds) tmp"
    unfolding grab_fields_def src_def tmp_def
    using grab_loop_digits_prefix[OF ds, of "[]" "0x2E # es @ rest" m 0] p by simp
  also have "\<dots> = (if 15 \<le> Suc (length ds) then Inr (0, src')
                    else grab_loop src' m (Suc (Suc (length ds))) (grab_digit src' (Suc (length ds)) tmp))"
    using dot l m by (subst grab_loop.simps) (simp add: Let_def src'_def)
  also have "\<dots> = Inr (0, src')"
  proof (cases "15 \<le> Suc (length ds)")
    case True
    then show ?thesis by simp
  next
    case False
    then have p13: "length ds \<le> 13" by simp
    have dig: "\<forall>k. Suc (Suc (length ds)) \<le> k \<and> k \<le> 15 \<longrightarrow> is_digit (src' ! k)"
    proof (intro allI impI)
      fix k assume k: "Suc (Suc (length ds)) \<le> k \<and> k \<le> 15"
      then have ne: "k \<noteq> Suc (length ds) + unat m" using z by simp
      have kk: "k - Suc (length ds) < length es" using k le by arith
      have "src' ! k = src ! k" unfolding src'_def using ne by simp
      also have "\<dots> = es ! (k - Suc (length ds))"
        using k kk by (simp add: src_def nth_append nth_Cons')
      finally show "is_digit (src' ! k)" using es kk by (simp add: list_all_length)
    qed
    have "grab_loop src' m (Suc (Suc (length ds))) (grab_digit src' (Suc (length ds)) tmp) = Inr (0, src')"
      using p13 by (intro grab_loop_digits[OF l16 dig]) simp
    with False show ?thesis by simp
  qed
  finally show ?thesis unfolding src_def src'_def .
qed


lemma grab_fields_point_zero:
  assumes "list_all is_digit ds" and "length ds \<le> 15"
  shows "grab_fields (ds @ 0x2E # rest) 0 =
           Inr (foldl (\<lambda>t c. t * 10 + ucast (c - 0x30)) 0 ds, ds @ 0x2E # rest)"
proof -
  have "grab_fields (ds @ 0x2E # rest) 0 =
          grab_loop (ds @ 0x2E # rest) 0 (length ds) (foldl (\<lambda>t c. t * 10 + ucast (c - 0x30)) 0 ds)"
    unfolding grab_fields_def
    using grab_loop_digits_prefix[OF assms(1), of "[]" "0x2E # rest" 0 0] assms(2) by simp
  also have "\<dots> = Inr (foldl (\<lambda>t c. t * 10 + ucast (c - 0x30)) 0 ds, ds @ 0x2E # rest)"
    by (intro grab_loop_dot0) simp_all
  finally show ?thesis .
qed

lemma first_char_nth: "(cs @ 0 # rest) ! 0 = first_char cs"
  by (cases cs) (simp_all add: first_char_def)

lemma grab_loop_field:
  assumes "length pre + length f + length rest = 15"
    and "0 \<notin> set f" and "m = 0 \<or> m = 1"
    and "length pre + length f = 15 \<longrightarrow> f = [] \<or> last f \<noteq> 0x2E"
  shows "\<exists>b. grab_loop (pre @ f @ 0 # rest) m (length pre) tmp = Inr (dec m f tmp, b)"
  using assms
proof (induction f arbitrary: pre tmp)
  case Nil
  then show ?case by (simp add: grab_loop_nul)
next
  case (Cons c cs)
  define src where "src = pre @ (c # cs) @ 0 # rest"
  have c0: "c \<noteq> 0" using Cons.prems by auto
  have nth: "src ! length pre = c" by (simp add: src_def)
  have len: "length src = 16" using Cons.prems(1) by (simp add: src_def)
  have i14: "length pre \<le> 14" using Cons.prems(1) by simp
  show ?case
  proof (cases "c = 0x2E")
    case dot: True
    show ?thesis
    proof (cases "m = 0")
      case True
      have "grab_loop src 0 (length pre) tmp = Inr (tmp, src)"
        using dot nth len i14 by (intro grab_loop_dot0) auto
      then show ?thesis using dot True by (auto simp: src_def)
    next
      case False
      with Cons.prems(3) have m1: "m = 1" by simp
      have i13: "length pre < 14"
      proof (rule ccontr)
        assume "\<not> length pre < 14"
        with i14 have "length pre = 14" by simp
        with Cons.prems(1) have "cs = []" by simp
        with Cons.prems(4) \<open>length pre = 14\<close> dot show False by simp
      qed
      define src1 where "src1 = src[Suc (length pre) + unat m := 0]"
      have s1: "src1 ! Suc (length pre) = first_char cs"
        using first_char_nth[of cs rest] 
        by (simp add: src1_def src_def m1 nth_append nth_Cons')
      have s2: "src1 ! Suc (Suc (length pre)) = 0" "Suc (Suc (length pre)) < length src1"
        using len i13 by (simp_all add: src1_def m1)
      have "grab_loop src m (length pre) tmp =
            grab_loop src1 m (Suc (Suc (length pre))) (digit_acc (src1 ! Suc (length pre)) tmp)"
        unfolding src1_def using dot nth len i13 False m1
        by (intro grab_loop_dot) auto
      also have "\<dots> = Inr (digit_acc (first_char cs) tmp, src1)"
        using s2 by (simp add: grab_loop_nul s1)
      finally show ?thesis using dot False by (auto simp: src_def)
    qed
  next
    case nodot: False
    have "\<exists>b. grab_loop ((pre @ [c]) @ cs @ 0 # rest) m (length (pre @ [c])) (digit_acc c tmp)
             = Inr (dec m cs (digit_acc c tmp), b)"
      using Cons.prems nodot by (intro Cons.IH) (auto split: if_splits)
    moreover have "grab_loop src m (length pre) tmp = grab_loop src m (Suc (length pre)) (digit_acc (src ! length pre) tmp)"
      using nodot c0 nth len i14 by (intro grab_loop_char) auto
    ultimately show ?thesis using nodot by (simp add: src_def nth)
  qed
qed

section \<open>Properties of the sentence parser\<close>

lemma wf_field_nul: "wf_field f \<Longrightarrow> 0 \<notin> set f"
  by (auto simp: wf_field_def list_all_iff field_byte_def)

lemma grab_fields_wf:
  assumes "wf_field f" and "length f + length rest = 15" and "m = 0 \<or> m = 1"
  shows "\<exists>b. grab_fields (f @ 0 # rest) m = Inr (dec m f 0, b) \<and> length b = 16"
proof -
  from assms(1) have "length [] + length f = 15 \<longrightarrow> f = [] \<or> last f \<noteq> 0x2E"
    by (simp add: wf_field_def NMEA_BUFFER_SIZE_def)
  from grab_loop_field[of "[]" f rest m 0, OF _ wf_field_nul[OF assms(1)] assms(3) this] assms(2)
  obtain b where b: "grab_loop (f @ 0 # rest) m 0 0 = Inr (dec m f 0, b)" by auto
  from grab_loop_frame[OF b] assms(2) have "length b = 16" by simp
  with b show ?thesis by (auto simp: grab_fields_def)
qed

lemma field_value_dec:
  assumes "wf_field f" and "m = 0 \<or> m = 1"
  shows "field_value f m = dec m f 0"
proof -
  have le: "length f \<le> 15" using assms(1) by (simp add: wf_field_def NMEA_BUFFER_SIZE_def)
  then have "replicate (NMEA_BUFFER_SIZE - length f) 0 = (0::byte) # replicate (15 - length f) 0"
    by (simp add: NMEA_BUFFER_SIZE_def Suc_diff_le flip: replicate_Suc)
  moreover from grab_fields_wf[OF assms(1) _ assms(2), of "replicate (15 - length f) 0"] le
  obtain b where "grab_fields (f @ 0 # replicate (15 - length f) 0) m = Inr (dec m f 0, b)" by auto
  ultimately show ?thesis by (simp add: field_value_def)
qed

lemma grab_fields_field_value:
  assumes "wf_field f" and "length f + length rest = 15" and "m = 0 \<or> m = 1"
  shows "\<exists>b. grab_fields (f @ 0 # rest) m = Inr (field_value f m, b) \<and> length b = 16"
  using grab_fields_wf[OF assms] field_value_dec[OF assms(1,3)] by simp

lemma cstr_field: "0 \<notin> set f \<Longrightarrow> cstr (f @ 0 # rest) = f"
  by (induction f) (simp_all add: cstr_def)

lemma frame_ident_field: "0 \<notin> set f \<Longrightarrow> frame_ident (f @ 0 # rest) = frame_ident (f @ [0])"
  by (simp add: frame_ident_def cstr_field)

lemma gga_field_wf:
  assumes "wf_field f" and "length f + length rest = 15"
  shows "\<exists>b. gga_field e p (f @ 0 # rest) m = Inr (b, field_msg e FRAME_GGA p f m) \<and> length b = 16"
proof -
  from grab_fields_field_value[OF assms, of 0] obtain b0 where
    b0: "grab_fields (f @ 0 # rest) 0 = Inr (field_value f 0, b0)" "length b0 = 16" by auto
  from grab_fields_field_value[OF assms, of 1] obtain b1 where
    b1: "grab_fields (f @ 0 # rest) 1 = Inr (field_value f 1, b1)" "length b1 = 16" by auto
  have len: "length (f @ 0 # rest) = 16" using assms(2) by simp
  show ?thesis
    unfolding gga_field_def field_msg_def first_char_nth cstr_field[OF wf_field_nul[OF assms(1)]]
    using b0 b1 len by (simp add: FRAME_GGA_def)
qed

lemma rmc_field_wf:
  assumes "wf_field f" and "length f + length rest = 15"
  shows "\<exists>b. rmc_field p (f @ 0 # rest) m = Inr (b, field_msg e FRAME_RMC p f m) \<and> length b = 16"
proof -
  from grab_fields_field_value[OF assms, of 1] obtain b1 where
    b1: "grab_fields (f @ 0 # rest) 1 = Inr (field_value f 1, b1)" "length b1 = 16" by auto
  have len: "length (f @ 0 # rest) = 16" using assms(2) by simp
  show ?thesis
    unfolding rmc_field_def field_msg_def
    using b1 len by (simp add: FRAME_GGA_def FRAME_RMC_def)
qed

lemma feed_append:
  "feed e (xs @ ys) s =
     (case feed e xs s of Inl f \<Rightarrow> Inl f
      | Inr (oks, s') \<Rightarrow>
          (case feed e ys s' of Inl f \<Rightarrow> Inl f
           | Inr (oks', s'') \<Rightarrow> Inr (oks @ oks', s'')))"
  by (induction xs arbitrary: s) (auto split: sum.splits prod.splits)

lemma feed_append_Inr:
  "feed e xs s = Inr (oks, s') \<Longrightarrow> feed e ys s' = Inr (oks', s'') \<Longrightarrow>
   feed e (xs @ ys) s = Inr (oks @ oks', s'')"
  by (simp add: feed_append)

lemma feed_single:
  "gpsNewFrameNMEA e c s = Inr (ok, s') \<Longrightarrow> feed e [c] s = Inr ([ok], s')"
  by simp

lemma xor_bytes_append: "xor_bytes (xs @ ys) = xor_bytes xs XOR xor_bytes ys"
  by (induction xs) (simp_all add: xor.assoc)

lemma unat_of_nat_byte: "n < 256 \<Longrightarrow> unat (of_nat n :: byte) = n"
  by (simp add: unat_of_nat)

lemma store_step:
  assumes "field_byte c" and "offset s = of_nat k" and "k < 15" and "length (string s) = 16"
  shows "gpsNewFrameNMEA e c s =
    Inr (False, s\<lparr>string := (string s)[k := c], offset := of_nat (Suc k),
                  parity := (if checksum_param s = 0 then parity s XOR c else parity s)\<rparr>)"
proof -
  have u: "unat (offset s) = k" using assms(2,3) by (simp add: unat_of_nat_byte)
  have lt: "offset s < 15" using u assms(3) by (simp add: word_less_nat_alt)
  show ?thesis using assms(1,3,4) u lt assms(2)
    by (simp add: gpsNewFrameNMEA_def nmea_store_def field_byte_def NMEA_BUFFER_SIZE_def)
qed

lemma update_append_drop:
  "n < length str \<Longrightarrow> length f = n \<Longrightarrow> (f @ drop n str)[n := c] = (f @ [c]) @ drop (Suc n) str"
  by (simp add: list_update_append upd_conv_take_nth_drop)

lemma feed_store:
  assumes "length f \<le> 15" and "list_all field_byte f" and "offset s = 0" and "length (string s) = 16"
  shows "feed e f s =
    Inr (replicate (length f) False,
         s\<lparr>string := f @ drop (length f) (string s), offset := of_nat (length f),
           parity := (if checksum_param s = 0 then parity s XOR xor_bytes f else parity s)\<rparr>)"
  using assms(1,2)
proof (induction f rule: rev_induct)
  case Nil
  then show ?case using assms(3) by simp
next
  case (snoc c f)
  let ?s1 = "s\<lparr>string := f @ drop (length f) (string s), offset := of_nat (length f),
           parity := (if checksum_param s = 0 then parity s XOR xor_bytes f else parity s)\<rparr>"
  have 1: "feed e f s = Inr (replicate (length f) False, ?s1)"
    using snoc by simp
  have lf: "length f < 15" using snoc.prems by simp
  have fb: "field_byte c" using snoc.prems by simp
  have l1: "length (string ?s1) = 16" using assms(4) lf by simp
  have 2: "gpsNewFrameNMEA e c ?s1 = Inr (False, ?s1\<lparr>string := (string ?s1)[length f := c], offset := of_nat (Suc (length f)),
                  parity := (if checksum_param ?s1 = 0 then parity ?s1 XOR c else parity ?s1)\<rparr>)"
    by (rule store_step[OF fb _ lf l1]) simp
  have upd: "(f @ drop (length f) (string s))[length f := c] = (f @ [c]) @ drop (Suc (length f)) (string s)"
    using lf assms(4) by (intro update_append_drop) auto
  have "feed e (f @ [c]) s = Inr (replicate (length f) False @ [False], ?s1\<lparr>string := (string ?s1)[length f := c], offset := of_nat (Suc (length f)),
                  parity := (if checksum_param ?s1 = 0 then parity ?s1 XOR c else parity ?s1)\<rparr>)"
    by (rule feed_append_Inr[OF 1 feed_single[OF 2]])
  then show ?case
    by (simp add: upd xor_bytes_append xor.assoc replicate_append_same)
qed

lemma storable_recorded: "storable f \<Longrightarrow> wf_field (recorded f)"
proof -
  assume st: "storable f"
  have fb: "list_all field_byte (recorded f)"
    using st by (auto simp: storable_def recorded_def list_all_iff dest: in_set_takeD)
  have "last (recorded f) \<noteq> 0x2E" if l: "length (recorded f) = 15"
  proof -
    from l have ne: "recorded f \<noteq> []" by auto
    from l have "15 \<le> length f" by (simp add: recorded_def NMEA_BUFFER_SIZE_def)
    with st have "f ! 14 \<noteq> 0x2E" by (simp add: storable_def NMEA_BUFFER_SIZE_def)
    moreover have "last (recorded f) = f ! 14"
      using l by (simp add: last_conv_nth[OF ne]) (simp add: recorded_def NMEA_BUFFER_SIZE_def)
    ultimately show ?thesis by simp
  qed
  with fb show ?thesis
    by (simp add: wf_field_def NMEA_BUFFER_SIZE_def) (simp add: recorded_def NMEA_BUFFER_SIZE_def)
qed

lemma wf_field_storable: "wf_field f \<Longrightarrow> storable f \<and> recorded f = f"
proof -
  assume wf: "wf_field f"
  have "f ! 14 \<noteq> 0x2E" if "15 \<le> length f"
  proof -
    from that wf have l: "length f = 15" by (simp add: wf_field_def NMEA_BUFFER_SIZE_def)
    then have ne: "f \<noteq> []" by auto
    from l wf have "last f \<noteq> 0x2E" by (simp add: wf_field_def NMEA_BUFFER_SIZE_def)
    then show ?thesis using l by (simp add: last_conv_nth[OF ne])
  qed
  with wf show ?thesis
    by (simp add: storable_def wf_field_def recorded_def NMEA_BUFFER_SIZE_def)
qed

lemma dropped_step:
  assumes "field_byte c" and "offset s = 15"
  shows "gpsNewFrameNMEA e c s = Inr (False, s)"
  using assms by (simp add: gpsNewFrameNMEA_def nmea_store_def field_byte_def NMEA_BUFFER_SIZE_def)

lemma feed_dropped:
  assumes "list_all field_byte g" and "offset s = 15"
  shows "feed e g s = Inr (replicate (length g) False, s)"
  using assms by (induction g) (simp_all add: dropped_step)

lemma feed_store_long:
  assumes "list_all field_byte f" and "offset s = 0" and "length (string s) = 16"
  shows "feed e f s =
    Inr (replicate (length f) False,
         s\<lparr>string := recorded f @ drop (length (recorded f)) (string s),
           offset := of_nat (length (recorded f)),
           parity := (if checksum_param s = 0 then parity s XOR xor_bytes (recorded f) else parity s)\<rparr>)"
proof (cases "length f \<le> 15")
  case True
  then have "recorded f = f" by (simp add: recorded_def NMEA_BUFFER_SIZE_def)
  then show ?thesis using feed_store[OF True assms] by simp
next
  case False
  define a where "a = take 15 f"
  define b where "b = drop 15 f"
  have f: "f = a @ b" and la: "length a = 15" and ra: "recorded f = a"
    using False by (simp_all add: a_def b_def recorded_def NMEA_BUFFER_SIZE_def)
  have fa: "list_all field_byte a" and fb: "list_all field_byte b"
    using assms(1) by (auto simp: a_def b_def list_all_iff dest: in_set_takeD in_set_dropD)
  define s1 where "s1 = s\<lparr>string := a @ drop (length a) (string s), offset := of_nat (length a),
           parity := (if checksum_param s = 0 then parity s XOR xor_bytes a else parity s)\<rparr>"
  have 1: "feed e a s = Inr (replicate (length a) False, s1)"
    unfolding s1_def using la by (intro feed_store[OF _ fa assms(2,3)]) simp
  have 2: "feed e b s1 = Inr (replicate (length b) False, s1)"
    by (rule feed_dropped[OF fb]) (simp add: s1_def la)
  have "feed e (a @ b) s = Inr (replicate (length a) False @ replicate (length b) False, s1)"
    by (rule feed_append_Inr[OF 1 2])
  then have "feed e f s = Inr (replicate (length f) False, s1)"
    unfolding f by (simp add: replicate_add)
  then show ?thesis unfolding ra s1_def .
qed

lemma separator_step:
  assumes "wf_field f" and "c = 0x2C \<or> c = 0x2A"
    and "string s = f @ r" and "length (string s) = 16" and "offset s = of_nat (length f)"
  shows "\<exists>str. length str = 16 \<and>
    gpsNewFrameNMEA e c s =
      Inr (False,
        (let fr = (if param s = 0 then frame_ident (f @ [0]) else gps_frame s)
         in s\<lparr>gps_Msg := field_msg e fr (param s) f (gps_Msg s), param := param s + 1, offset := 0,
            parity := (if c = 0x2A then parity s else parity s XOR c),
            string := str,
            checksum_param := (if c = 0x2A then 1 else checksum_param s),
            gps_frame := fr\<rparr>))"
proof -
  have lf: "length f \<le> 15" using assms(1) by (simp add: wf_field_def NMEA_BUFFER_SIZE_def)
  have u: "unat (offset s) = length f" using assms(5) lf by (simp add: unat_of_nat_byte)
  from assms(3,4) lf obtain x r' where r: "r = x # r'" by (cases r) auto
  define rest where "rest = r'"
  have lr: "length f + length rest = 15" using assms(3,4) r by (simp add: rest_def)
  have str: "(string s)[unat (offset s) := 0] = f @ 0 # rest"
    by (simp add: u assms(3) r rest_def)
  have nul: "0 \<notin> set f" by (rule wf_field_nul[OF assms(1)])
  define fr where "fr = (if param s = 0 then frame_ident (f @ [0]) else gps_frame s)"
  have fr': "(if param s = 0 then frame_ident (f @ 0 # rest) else gps_frame s) = fr"
    unfolding fr_def using frame_ident_field[OF nul, of rest] by simp
  from gga_field_wf[OF assms(1) lr, of e "param s" "gps_Msg s"] obtain bg where
    bg: "gga_field e (param s) (f @ 0 # rest) (gps_Msg s) = Inr (bg, field_msg e FRAME_GGA (param s) f (gps_Msg s))"
        "length bg = 16" by auto
  from rmc_field_wf[OF assms(1) lr, of "param s" "gps_Msg s" e] obtain br where
    br: "rmc_field (param s) (f @ 0 # rest) (gps_Msg s) = Inr (br, field_msg e FRAME_RMC (param s) f (gps_Msg s))"
        "length br = 16" by auto
  have other: "fr \<noteq> FRAME_GGA \<Longrightarrow> fr \<noteq> FRAME_RMC \<Longrightarrow> field_msg e fr (param s) f (gps_Msg s) = gps_Msg s"
    by (simp add: field_msg_def)
  have nb: "\<not> length (string s) \<le> unat (offset s)" using u lf assms(4) by simp
  have cne: "c \<noteq> 0x24" using assms(2) by auto
  consider (gga) "fr = FRAME_GGA" | (rmc) "fr \<noteq> FRAME_GGA" "fr = FRAME_RMC" | (no) "fr \<noteq> FRAME_GGA" "fr \<noteq> FRAME_RMC"
    by blast
  then show ?thesis
  proof cases
    case gga
    show ?thesis
      apply (rule exI[of _ bg])
      using assms(2) cne nb bg gga
      by (simp add: gpsNewFrameNMEA_def nmea_separator_def str fr' Let_def flip: fr_def)
  next
    case rmc
    show ?thesis
      apply (rule exI[of _ br])
      using assms(2) cne nb br rmc
      by (simp add: gpsNewFrameNMEA_def nmea_separator_def str fr' Let_def flip: fr_def)
  next
    case no
    show ?thesis
      apply (rule exI[of _ "f @ 0 # rest"])
      using assms(2) cne nb no other lr
      by (simp add: gpsNewFrameNMEA_def nmea_separator_def str fr' Let_def flip: fr_def)
  qed
qed

lemma feed_field_long:
  assumes "storable f" and "c = 0x2C \<or> c = 0x2A"
    and "offset s = 0" and "length (string s) = 16"
  shows "\<exists>str. length str = 16 \<and>
    feed e (f @ [c]) s = Inr (replicate (Suc (length f)) False, after_field e c (recorded f) str s)"
proof -
  have fb: "list_all field_byte f" using assms(1) by (simp add: storable_def)
  note wf = storable_recorded[OF assms(1)]
  have lf: "length (recorded f) \<le> 15" using wf by (simp add: wf_field_def NMEA_BUFFER_SIZE_def)
  define r where "r = recorded f"
  define s1 where "s1 = s\<lparr>string := r @ drop (length r) (string s), offset := of_nat (length r),
           parity := (if checksum_param s = 0 then parity s XOR xor_bytes r else parity s)\<rparr>"
  have 1: "feed e f s = Inr (replicate (length f) False, s1)"
    unfolding s1_def r_def by (rule feed_store_long[OF fb assms(3,4)])
  have "\<exists>str. length str = 16 \<and>
    gpsNewFrameNMEA e c s1 =
      Inr (False,
        (let fr = (if param s1 = 0 then frame_ident (r @ [0]) else gps_frame s1)
         in s1\<lparr>gps_Msg := field_msg e fr (param s1) r (gps_Msg s1), param := param s1 + 1, offset := 0,
            parity := (if c = 0x2A then parity s1 else parity s1 XOR c),
            string := str,
            checksum_param := (if c = 0x2A then 1 else checksum_param s1),
            gps_frame := fr\<rparr>))"
    by (rule separator_step[OF wf[folded r_def] assms(2), of s1 "drop (length r) (string s)"])
       (use lf assms(4) in \<open>simp_all add: s1_def r_def\<close>)
  then obtain str where str: "length str = 16" and
    2: "gpsNewFrameNMEA e c s1 =
      Inr (False,
        (let fr = (if param s1 = 0 then frame_ident (r @ [0]) else gps_frame s1)
         in s1\<lparr>gps_Msg := field_msg e fr (param s1) r (gps_Msg s1), param := param s1 + 1, offset := 0,
            parity := (if c = 0x2A then parity s1 else parity s1 XOR c),
            string := str,
            checksum_param := (if c = 0x2A then 1 else checksum_param s1),
            gps_frame := fr\<rparr>))" by blast
  have 3: "(let fr = (if param s1 = 0 then frame_ident (r @ [0]) else gps_frame s1)
         in s1\<lparr>gps_Msg := field_msg e fr (param s1) r (gps_Msg s1), param := param s1 + 1, offset := 0,
            parity := (if c = 0x2A then parity s1 else parity s1 XOR c),
            string := str,
            checksum_param := (if c = 0x2A then 1 else checksum_param s1),
            gps_frame := fr\<rparr>) = after_field e c r str s"
    by (simp add: s1_def after_field_def Let_def)
  note 4 = feed_append_Inr[OF 1 feed_single[OF 2], unfolded 3]
  from 4 str show ?thesis
    unfolding r_def by (auto simp: replicate_append_same)
qed

lemma after_field_props:
  "offset (after_field e c f str s) = 0"
  "string (after_field e c f str s) = str"
  "c \<noteq> 0x2A \<Longrightarrow> checksum_param (after_field e c f str s) = checksum_param s"
  by (simp_all add: after_field_def Let_def)

lemma body_state_single:
  "checksum_param s = 0 \<Longrightarrow> after_field e 0x2A f str s = body_state e [f] str s"
  by (simp add: after_field_def body_state_def Let_def)

lemma body_state_cons:
  "checksum_param s = 0 \<Longrightarrow>
   body_state e (g # gs) str (after_field e 0x2C f str1 s) = body_state e (f # g # gs) str s"
  by (simp add: after_field_def body_state_def Let_def xor_bytes_append xor.assoc split: prod.splits)

lemma feed_fields_long:
  assumes "fs \<noteq> []" and "list_all storable fs" and "offset s = 0"
    and "length (string s) = 16" and "checksum_param s = 0"
  shows "\<exists>str. length str = 16 \<and>
    feed e (join_fields fs @ [0x2A]) s =
      Inr (replicate (Suc (length (join_fields fs))) False, body_state e (map recorded fs) str s)"
  using assms
proof (induction fs arbitrary: s rule: join_fields.induct)
  case 1
  then show ?case by simp
next
  case (2 f)
  from feed_field_long[of f "0x2A" s e] 2 obtain str where
    "length str = 16"
    "feed e (f @ [0x2A]) s = Inr (replicate (Suc (length f)) False, after_field e 0x2A (recorded f) str s)"
    by auto
  then show ?case using body_state_single[OF "2.prems"(5)] by auto
next
  case (3 f g fs)
  from feed_field_long[of f "0x2C" s e] "3.prems" obtain str1 where
    s1: "length str1 = 16"
        "feed e (f @ [0x2C]) s = Inr (replicate (Suc (length f)) False, after_field e 0x2C (recorded f) str1 s)"
    by auto
  define s1 where "s1 = after_field e 0x2C (recorded f) str1 s"
  have "\<exists>str. length str = 16 \<and>
    feed e (join_fields (g # fs) @ [0x2A]) s1 =
      Inr (replicate (Suc (length (join_fields (g # fs)))) False,
           body_state e (map recorded (g # fs)) str s1)"
    using "3.prems" s1(1) by (intro "3.IH") (simp_all add: s1_def after_field_props)
  then obtain str where str: "length str = 16"
    "feed e (join_fields (g # fs) @ [0x2A]) s1 =
      Inr (replicate (Suc (length (join_fields (g # fs)))) False,
           body_state e (recorded g # map recorded fs) str s1)"
    by auto
  have "feed e ((f @ [0x2C]) @ (join_fields (g # fs) @ [0x2A])) s =
        Inr (replicate (Suc (length f)) False @ replicate (Suc (length (join_fields (g # fs)))) False,
             body_state e (recorded g # map recorded fs) str s1)"
    by (rule feed_append_Inr[OF s1(2)[folded s1_def] str(2)])
  then have "feed e (join_fields (f # g # fs) @ [0x2A]) s =
        Inr (replicate (Suc (length (join_fields (f # g # fs)))) False,
             body_state e (map recorded (f # g # fs)) str s)"
    unfolding s1_def body_state_cons[OF "3.prems"(5)]
    by (simp add: replicate_app_Cons_same replicate_add)
  with str(1) show ?case by blast
qed

lemma is_hex_field_byte: "is_hex c \<Longrightarrow> field_byte c"
  by (auto simp: is_hex_def field_byte_def)

lemma terminator_clears:
  "nmea_terminator e s = Inr (ok, s') \<Longrightarrow> checksum_param s' = 0"
  by (auto simp: nmea_terminator_def Let_def split: if_splits)

lemma terminator_idle:
  "checksum_param s = 0 \<Longrightarrow> gpsNewFrameNMEA e 0x0A s = Inr (False, s)"
  by (cases s) (simp add: gpsNewFrameNMEA_def nmea_terminator_def)

lemma dollar_step:
  "gpsNewFrameNMEA e 0x24 s = Inr (False, s\<lparr>param := 0, offset := 0, parity := 0\<rparr>)"
  by (simp add: gpsNewFrameNMEA_def)

lemma cr_step: "gpsNewFrameNMEA e 0x0D s = nmea_terminator e s"
  by (simp add: gpsNewFrameNMEA_def)

lemma feed_sentence_long:
  assumes "fs \<noteq> []" and "list_all storable fs" and "is_hex h1" and "is_hex h2"
    and "length (string s) = 16" and "checksum_param s = 0"
  shows "\<exists>str. length str = 14 \<and>
    (\<forall>ok s'. nmea_terminator e (term_state e (map recorded fs) h1 h2 str s) = Inr (ok, s') \<longrightarrow>
       feed e (sentence fs [h1, h2] @ [0x0D, 0x0A]) s =
         Inr (replicate (length (sentence fs [h1, h2])) False @ [ok, False], s'))"
proof -
  define s0 where "s0 = s\<lparr>param := 0, offset := 0, parity := 0\<rparr>"
  have a: "feed e [0x24] s = Inr ([False], s0)"
    unfolding s0_def by (rule feed_single[OF dollar_step])
  from feed_fields_long[OF assms(1,2), of s0 e] assms(5,6) obtain str0 where
    l0: "length str0 = 16" and
    b: "feed e (join_fields fs @ [0x2A]) s0 =
          Inr (replicate (Suc (length (join_fields fs))) False, body_state e (map recorded fs) str0 s0)"
    by (auto simp: s0_def)
  define s1 where "s1 = body_state e (map recorded fs) str0 s0"
  have s1: "offset s1 = 0" "length (string s1) = 16" "checksum_param s1 = 1" "string s1 = str0"
    using l0 by (simp_all add: s1_def body_state_def split: prod.splits)
  define s2 where "s2 = s1\<lparr>string := [h1, h2] @ drop (length [h1, h2]) (string s1),
       offset := of_nat (length [h1, h2]),
       parity := (if checksum_param s1 = 0 then parity s1 XOR xor_bytes [h1, h2] else parity s1)\<rparr>"
  have c: "feed e [h1, h2] s1 = Inr (replicate (length [h1, h2]) False, s2)"
    unfolding s2_def using assms(3,4) s1
    by (intro feed_store) (simp_all add: is_hex_field_byte)
  have s2: "s2 = term_state e (map recorded fs) h1 h2 (drop (Suc (Suc 0)) str0) s"
    by (simp add: s2_def s1 s1_def body_state_def term_state_def s0_def split: prod.splits)
  have l2: "length (drop (Suc (Suc 0)) str0) = 14" using l0 by simp
  have "feed e (sentence fs [h1, h2] @ [0x0D, 0x0A]) s =
         Inr (replicate (length (sentence fs [h1, h2])) False @ [ok, False], s')"
    if t: "nmea_terminator e (term_state e (map recorded fs) h1 h2 (drop (Suc (Suc 0)) str0) s) = Inr (ok, s')"
    for ok s'
  proof -
    have d: "feed e [0x0D] s2 = Inr ([ok], s')"
      by (rule feed_single) (simp add: cr_step s2 t)
    have f: "feed e [0x0A] s' = Inr ([False], s')"
      by (rule feed_single[OF terminator_idle[OF terminator_clears[OF t]]])
    have "feed e ([0x24] @ (join_fields fs @ [0x2A]) @ [h1, h2] @ [0x0D] @ [0x0A]) s =
          Inr ([False] @ replicate (Suc (length (join_fields fs))) False @ replicate (length [h1, h2]) False @ [ok] @ [False], s')"
      by (intro feed_append_Inr[OF a] feed_append_Inr[OF b[folded s1_def]] feed_append_Inr[OF c]
            feed_append_Inr[OF d] f)
    then show ?thesis
      by (simp add: sentence_def replicate_app_Cons_same)
  qed
  with l2 show ?thesis by blast
qed

lemma wf_fields_recorded:
  "list_all wf_field fs \<Longrightarrow> list_all storable fs \<and> map recorded fs = fs"
  by (induction fs) (simp_all add: wf_field_storable)

lemma sint_small: "c \<le> 0x7F \<Longrightarrow> sint (c::byte) = uint c"
proof -
  assume "c \<le> 0x7F"
  then have "uint c < 2 ^ 7" by (simp add: word_le_def)
  moreover have "- (2 ^ 7) \<le> uint c" by (rule order_trans[of _ 0]) simp_all
  ultimately have "signed_take_bit 7 (uint c) = uint c" by (rule signed_take_bit_int_eq_self[rotated])
  then show ?thesis by (simp add: sint_uint)
qed

lemma char_val_ascii: "c \<le> 0x7F \<Longrightarrow> char_val e c = uint c"
  by (simp add: char_val_def sint_small)

lemma hex_val_nat: "is_hex c \<Longrightarrow> hex_val e c = int (hex_nat c) \<and> hex_nat c < 16"
proof -
  assume h: "is_hex c"
  define n where "n = unat c"
  have le: "c \<le> 0x39 \<longleftrightarrow> n \<le> 57" "0x30 \<le> c \<longleftrightarrow> 48 \<le> n"
    "c \<le> 0x46 \<longleftrightarrow> n \<le> 70" "0x41 \<le> c \<longleftrightarrow> 65 \<le> n" "c \<le> 0x7F \<longleftrightarrow> n \<le> 127"
    by (simp_all add: word_le_nat_alt n_def)
  from h have r: "(48 \<le> n \<and> n \<le> 57) \<or> (65 \<le> n \<and> n \<le> 70)"
    by (simp add: is_hex_def le)
  then have "c \<le> 0x7F" unfolding le by auto
  then have cv: "char_val e c = int n" by (simp add: char_val_ascii n_def)
  have hn: "hex_nat c = (if n \<le> 57 then n - 48 else n - 55)"
    by (simp add: hex_nat_def le n_def)
  from r show ?thesis
    unfolding hex_val_def cv hn by auto
qed

lemma nmea_checksum_hex:
  assumes "is_hex h1" "is_hex h2"
  shows "nmea_checksum e (h1 # h2 # str) = of_nat (16 * hex_nat h1 + hex_nat h2)"
  using hex_val_nat[OF assms(1), of e] hex_val_nat[OF assms(2), of e]
  by (simp add: nmea_checksum_def)

lemma checksum_eq_iff:
  assumes "is_hex h1" "is_hex h2"
  shows "nmea_checksum e (h1 # h2 # str) = w \<longleftrightarrow> 16 * hex_nat h1 + hex_nat h2 = unat w"
proof -
  from hex_val_nat[OF assms(1), of e] hex_val_nat[OF assms(2), of e]
  have lt: "16 * hex_nat h1 + hex_nat h2 < 256" by simp
  then have "unat (of_nat (16 * hex_nat h1 + hex_nat h2) :: byte) = 16 * hex_nat h1 + hex_nat h2"
    by (simp only: unat_of_nat) simp
  then show ?thesis unfolding nmea_checksum_hex[OF assms]
    by (auto simp: word_unat_eq_iff)
qed

lemma term_state_fields:
  "fields_fold e fs (0, gps_frame s, gps_Msg s) = (p, fr, m) \<Longrightarrow>
   term_state e fs h1 h2 str s =
     s\<lparr>gps_Msg := m, param := p, offset := 2, parity := xor_bytes (join_fields fs),
       string := h1 # h2 # str, checksum_param := 1, gps_frame := fr\<rparr>"
  by (simp add: term_state_def)

lemma terminator_mismatch:
  assumes "is_hex h1" "is_hex h2"
    and "16 * hex_nat h1 + hex_nat h2 \<noteq> unat (xor_bytes (join_fields fs))"
  shows "\<exists>s'. nmea_terminator e (term_state e fs h1 h2 str s) = Inr (False, s') \<and>
     errors (gpsStats s') = errors (gpsStats s) + 1 \<and>
     packetCount (gpsStats s') = packetCount (gpsStats s) \<and> gpsSol s' = gpsSol s"
proof -
  obtain p fr m where ff: "fields_fold e fs (0, gps_frame s, gps_Msg s) = (p, fr, m)"
    by (cases "fields_fold e fs (0, gps_frame s, gps_Msg s)") auto
  have ne: "nmea_checksum e (h1 # h2 # str) \<noteq> xor_bytes (join_fields fs)"
    using assms(3) by (simp add: checksum_eq_iff[OF assms(1,2)])
  show ?thesis
    unfolding term_state_fields[OF ff] using ne
    by (simp add: nmea_terminator_def)
qed

lemma frame_ident_gga: "is_gga ident \<Longrightarrow> frame_ident (ident @ [0]) = FRAME_GGA"
  by (auto simp: is_gga_def frame_ident_def cstr_def bytes_def)

lemma frame_ident_rmc: "is_rmc ident \<Longrightarrow> frame_ident (ident @ [0]) = FRAME_RMC"
  by (auto simp: is_rmc_def frame_ident_def cstr_def bytes_def)

lemma unat_byte_succ: "unat (p::byte) < 255 \<Longrightarrow> unat (p + 1) = Suc (unat p)"
  by (simp add: unat_word_ariths)

lemma field_msg_beyond:
  assumes "fr = FRAME_GGA \<and> 10 \<le> unat p \<or> fr = FRAME_RMC \<and> 9 \<le> unat p"
  shows "field_msg e fr p f m = m"
proof -
  from assms have "9 \<le> unat p" by auto
  then have ne: "p \<noteq> 2" "p \<noteq> 3" "p \<noteq> 4" "p \<noteq> 5" "p \<noteq> 6" "p \<noteq> 7" "p \<noteq> 8" by auto
  have n9: "fr = FRAME_GGA \<Longrightarrow> p \<noteq> 9" using assms by (auto simp: FRAME_GGA_def FRAME_RMC_def)
  show ?thesis
  proof (cases "fr = FRAME_GGA")
    case True
    then show ?thesis using ne n9 by (simp add: field_msg_def)
  next
    case False
    then show ?thesis using ne by (simp add: field_msg_def)
  qed
qed

lemma fields_fold_tail:
  assumes "fr = FRAME_GGA \<and> 10 \<le> unat p \<or> fr = FRAME_RMC \<and> 9 \<le> unat p"
    and "unat p + length fs \<le> 256"
  shows "\<exists>p'. fields_fold e fs (p, fr, m) = (p', fr, m)"
  using assms
proof (induction fs arbitrary: p)
  case Nil
  then show ?case by simp
next
  case (Cons f fs)
  from Cons.prems(1) have p9: "9 \<le> unat p" by auto
  then have p0: "p \<noteq> 0" by auto
  note same = field_msg_beyond[OF Cons.prems(1), of e f m]
  show ?case
  proof (cases fs)
    case Nil
    then show ?thesis using p0 same by (simp add: Let_def)
  next
    case (Cons g gs)
    with Cons.prems(2) have lt: "unat p < 255" by simp
    have "\<exists>p'. fields_fold e fs (p + 1, fr, m) = (p', fr, m)"
      using Cons.prems lt by (intro Cons.IH) (auto simp: unat_byte_succ)
    then show ?thesis using p0 same by (simp add: Let_def)
  qed
qed

lemma field_msg_gga:
  "field_msg e FRAME_GGA 0 f m = m"
  "field_msg e FRAME_GGA 1 f m = m"
  "field_msg e FRAME_GGA 2 f m = m\<lparr>latitude := GPS_coord_to_degrees e f\<rparr>"
  "field_msg e FRAME_GGA 3 f m = (if first_char f = 0x53 then m\<lparr>latitude := latitude m * (-1)\<rparr> else m)"
  "field_msg e FRAME_GGA 4 f m = m\<lparr>longitude := GPS_coord_to_degrees e f\<rparr>"
  "field_msg e FRAME_GGA 5 f m = (if first_char f = 0x57 then m\<lparr>longitude := longitude m * (-1)\<rparr> else m)"
  "field_msg e FRAME_GGA 6 f m = m\<lparr>fix_flag := (char_val e (first_char f) > 0x30)\<rparr>"
  "field_msg e FRAME_GGA 7 f m = m\<lparr>numSat := ucast (field_value f 0)\<rparr>"
  "field_msg e FRAME_GGA 8 f m = m\<lparr>hdop := ucast (field_value f 1 * 10)\<rparr>"
  "field_msg e FRAME_GGA 9 f m = m\<lparr>altitude := ucast (field_value f 1 * 10)\<rparr>"
  by (simp_all add: field_msg_def)

lemma field_msg_rmc:
  "field_msg e FRAME_RMC 0 f m = m"
  "field_msg e FRAME_RMC 1 f m = m"
  "field_msg e FRAME_RMC 2 f m = m"
  "field_msg e FRAME_RMC 3 f m = m"
  "field_msg e FRAME_RMC 4 f m = m"
  "field_msg e FRAME_RMC 5 f m = m"
  "field_msg e FRAME_RMC 6 f m = m"
  "field_msg e FRAME_RMC 7 f m = m\<lparr>speed := ucast ((field_value f 1 * 5144) div 1000)\<rparr>"
  "field_msg e FRAME_RMC 8 f m = m\<lparr>ground_course := ucast (field_value f 1)\<rparr>"
  by (simp_all add: field_msg_def FRAME_GGA_def FRAME_RMC_def)

lemma fields_fold_first:
  "fields_fold e (f # fs) (0, fr, m) =
     fields_fold e fs (1, frame_ident (f @ [0]), field_msg e (frame_ident (f @ [0])) 0 f m)"
  by (simp add: Let_def)

lemma fields_fold_next:
  "p \<noteq> 0 \<Longrightarrow> fields_fold e (f # fs) (p, fr, m) = fields_fold e fs (p + 1, fr, field_msg e fr p f m)"
  by (simp add: Let_def)

lemma fields_fold_gga:
  assumes "is_gga ident" and "length rest \<le> 246"
  shows "\<exists>p'. fields_fold e (ident # f1 # f2 # f3 # f4 # f5 # f6 # f7 # f8 # f9 # rest) (0, fr, m) =
    (p', FRAME_GGA,
     m\<lparr>latitude := (if first_char f3 = 0x53 then GPS_coord_to_degrees e f2 * (-1)
                     else GPS_coord_to_degrees e f2),
       longitude := (if first_char f5 = 0x57 then GPS_coord_to_degrees e f4 * (-1)
                     else GPS_coord_to_degrees e f4),
       fix_flag := (char_val e (first_char f6) > 0x30),
       numSat := ucast (field_value f7 0),
       hdop := ucast (field_value f8 1 * 10),
       altitude := ucast (field_value f9 1 * 10)\<rparr>)"
proof -
  define m' where "m' = m\<lparr>latitude := (if first_char f3 = 0x53 then GPS_coord_to_degrees e f2 * (-1)
                     else GPS_coord_to_degrees e f2),
       longitude := (if first_char f5 = 0x57 then GPS_coord_to_degrees e f4 * (-1)
                     else GPS_coord_to_degrees e f4),
       fix_flag := (char_val e (first_char f6) > 0x30),
       numSat := ucast (field_value f7 0),
       hdop := ucast (field_value f8 1 * 10),
       altitude := ucast (field_value f9 1 * 10)\<rparr>"
  have "fields_fold e (ident # f1 # f2 # f3 # f4 # f5 # f6 # f7 # f8 # f9 # rest) (0, fr, m) =
        fields_fold e (f1 # f2 # f3 # f4 # f5 # f6 # f7 # f8 # f9 # rest) (1, FRAME_GGA, m)"
    by (simp only: fields_fold_first frame_ident_gga[OF assms(1)] field_msg_gga)
  also have "\<dots> = fields_fold e (f3 # f4 # f5 # f6 # f7 # f8 # f9 # rest)
                      (3, FRAME_GGA, m\<lparr>latitude := GPS_coord_to_degrees e f2\<rparr>)"
    by (simp add: fields_fold_next field_msg_gga)
  also have "\<dots> = fields_fold e (f5 # f6 # f7 # f8 # f9 # rest)
                      (5, FRAME_GGA, m\<lparr>latitude := (if first_char f3 = 0x53 then GPS_coord_to_degrees e f2 * (-1)
                     else GPS_coord_to_degrees e f2), longitude := GPS_coord_to_degrees e f4\<rparr>)"
    by (simp add: fields_fold_next field_msg_gga)
  also have "\<dots> = fields_fold e (f7 # f8 # f9 # rest)
                      (7, FRAME_GGA, m\<lparr>latitude := (if first_char f3 = 0x53 then GPS_coord_to_degrees e f2 * (-1)
                     else GPS_coord_to_degrees e f2),
                     longitude := (if first_char f5 = 0x57 then GPS_coord_to_degrees e f4 * (-1)
                     else GPS_coord_to_degrees e f4),
                     fix_flag := (char_val e (first_char f6) > 0x30)\<rparr>)"
    by (simp add: fields_fold_next field_msg_gga)
  also have "\<dots> = fields_fold e rest (10, FRAME_GGA, m')"
    by (simp add: fields_fold_next field_msg_gga m'_def)
  finally have "fields_fold e (ident # f1 # f2 # f3 # f4 # f5 # f6 # f7 # f8 # f9 # rest) (0, fr, m) =
        fields_fold e rest (10, FRAME_GGA, m')" .
  moreover have "\<exists>p'. fields_fold e rest (10, FRAME_GGA, m') = (p', FRAME_GGA, m')"
    using assms(2) by (intro fields_fold_tail) auto
  ultimately show ?thesis unfolding m'_def by simp
qed

lemma fields_fold_rmc:
  assumes "is_rmc ident" and "length rest \<le> 247"
  shows "\<exists>p'. fields_fold e (ident # f1 # f2 # f3 # f4 # f5 # f6 # f7 # f8 # rest) (0, fr, m) =
    (p', FRAME_RMC,
     m\<lparr>speed := ucast ((field_value f7 1 * 5144) div 1000),
       ground_course := ucast (field_value f8 1)\<rparr>)"
proof -
  define m' where "m' = m\<lparr>speed := ucast ((field_value f7 1 * 5144) div 1000),
       ground_course := ucast (field_value f8 1)\<rparr>"
  have "fields_fold e (ident # f1 # f2 # f3 # f4 # f5 # f6 # f7 # f8 # rest) (0, fr, m) =
        fields_fold e (f1 # f2 # f3 # f4 # f5 # f6 # f7 # f8 # rest) (1, FRAME_RMC, m)"
    by (simp only: fields_fold_first frame_ident_rmc[OF assms(1)] field_msg_rmc)
  also have "\<dots> = fields_fold e (f4 # f5 # f6 # f7 # f8 # rest) (4, FRAME_RMC, m)"
    by (simp add: fields_fold_next field_msg_rmc)
  also have "\<dots> = fields_fold e (f7 # f8 # rest) (7, FRAME_RMC, m)"
    by (simp add: fields_fold_next field_msg_rmc)
  also have "\<dots> = fields_fold e rest (9, FRAME_RMC, m')"
    by (simp add: fields_fold_next field_msg_rmc m'_def)
  finally have "fields_fold e (ident # f1 # f2 # f3 # f4 # f5 # f6 # f7 # f8 # rest) (0, fr, m) =
        fields_fold e rest (9, FRAME_RMC, m')" .
  moreover have "\<exists>p'. fields_fold e rest (9, FRAME_RMC, m') = (p', FRAME_RMC, m')"
    using assms(2) by (intro fields_fold_tail) auto
  ultimately show ?thesis unfolding m'_def by simp
qed

lemma terminator_match:
  assumes "is_hex h1" "is_hex h2"
    and "16 * hex_nat h1 + hex_nat h2 = unat (xor_bytes (join_fields fs))"
    and "fields_fold e fs (0, gps_frame s, gps_Msg s) = (p, fr, m)"
  shows "\<exists>s'. nmea_terminator e (term_state e fs h1 h2 str s) =
            Inr (fr = FRAME_GGA, s') \<and>
          gpsSol s' = (if fr = FRAME_GGA then commit_gga e m (gpsSol s)
                       else if fr = FRAME_RMC then commit_rmc m (gpsSol s) else gpsSol s) \<and>
          gpsStats s' = (gpsStats s)\<lparr>packetCount := packetCount (gpsStats s) + 1\<rparr>"
proof -
  have eq: "nmea_checksum e (h1 # h2 # str) = xor_bytes (join_fields fs)"
    using assms(3) by (simp add: checksum_eq_iff[OF assms(1,2)])
  show ?thesis
    unfolding term_state_fields[OF assms(4)] using eq
    by (simp add: nmea_terminator_def Let_def FRAME_GGA_def FRAME_RMC_def)
qed

lemma recorded_ident: "is_gga ident \<or> is_rmc ident \<Longrightarrow> recorded ident = ident"
  by (auto simp: is_gga_def is_rmc_def recorded_def NMEA_BUFFER_SIZE_def bytes_def)

lemma first_char_recorded: "first_char (recorded f) = first_char f"
  by (cases f) (simp_all add: first_char_def recorded_def NMEA_BUFFER_SIZE_def)

lemma recorded_short: "length f \<le> 15 \<Longrightarrow> recorded f = f"
  by (simp add: recorded_def NMEA_BUFFER_SIZE_def)

lemma gga_sentence_long:
  assumes "is_gga ident"
    and "fs = ident # f1 # f2 # f3 # f4 # f5 # f6 # f7 # f8 # f9 # rest"
    and "list_all storable fs" and "length fs \<le> 256"
    and "is_hex h1" and "is_hex h2"
    and "16 * hex_nat h1 + hex_nat h2 = unat (xor_bytes (join_fields (map recorded fs)))"
    and "length (string s) = NMEA_BUFFER_SIZE" and "checksum_param s = 0"
  shows "\<exists>s'. feed e (sentence fs [h1, h2] @ [0x0D, 0x0A]) s =
             Inr (replicate (length (sentence fs [h1, h2])) False @ [True, False], s') \<and>
          gpsSol s' =
            commit_gga e
              (gga_msg e (recorded f2) (recorded f3) (recorded f4) (recorded f5) (recorded f6)
                 (recorded f7) (recorded f8) (recorded f9) (gps_Msg s))
              (gpsSol s) \<and>
          gpsStats s' = (gpsStats s)\<lparr>packetCount := packetCount (gpsStats s) + 1\<rparr>"
proof -
  have ne: "fs \<noteq> []" using assms(2) by simp
  from feed_sentence_long[OF ne assms(3,5,6) _ assms(9), of e] assms(8) obtain str where
    fd: "\<And>ok s'. nmea_terminator e (term_state e (map recorded fs) h1 h2 str s) = Inr (ok, s') \<Longrightarrow>
       feed e (sentence fs [h1, h2] @ [0x0D, 0x0A]) s =
         Inr (replicate (length (sentence fs [h1, h2])) False @ [ok, False], s')"
    by (auto simp: NMEA_BUFFER_SIZE_def)
  have rec: "map recorded fs =
      ident # recorded f1 # recorded f2 # recorded f3 # recorded f4 # recorded f5 # recorded f6 #
      recorded f7 # recorded f8 # recorded f9 # map recorded rest"
    unfolding assms(2) using recorded_ident[of ident] assms(1) by simp
  have "length (map recorded rest) \<le> 246" using assms(2,4) by simp
  from fields_fold_gga[OF assms(1) this, of e "recorded f1" "recorded f2" "recorded f3" "recorded f4"
      "recorded f5" "recorded f6" "recorded f7" "recorded f8" "recorded f9" "gps_frame s" "gps_Msg s"]
  obtain p where
    ff: "fields_fold e (map recorded fs) (0, gps_frame s, gps_Msg s) =
           (p, FRAME_GGA,
            gga_msg e (recorded f2) (recorded f3) (recorded f4) (recorded f5) (recorded f6)
              (recorded f7) (recorded f8) (recorded f9) (gps_Msg s))"
    unfolding rec gga_msg_def by blast
  from terminator_match[OF assms(5-7) ff, of str] obtain s' where
    t: "nmea_terminator e (term_state e (map recorded fs) h1 h2 str s) = Inr (True, s')" and
    r: "gpsSol s' =
          commit_gga e
            (gga_msg e (recorded f2) (recorded f3) (recorded f4) (recorded f5) (recorded f6)
               (recorded f7) (recorded f8) (recorded f9) (gps_Msg s))
            (gpsSol s)"
       "gpsStats s' = (gpsStats s)\<lparr>packetCount := packetCount (gpsStats s) + 1\<rparr>"
    by auto
  from fd[OF t] r show ?thesis by blast
qed

lemma rmc_sentence_long:
  assumes "is_rmc ident"
    and "fs = ident # f1 # f2 # f3 # f4 # f5 # f6 # f7 # f8 # rest"
    and "list_all storable fs" and "length fs \<le> 256"
    and "is_hex h1" and "is_hex h2"
    and "16 * hex_nat h1 + hex_nat h2 = unat (xor_bytes (join_fields (map recorded fs)))"
    and "length (string s) = NMEA_BUFFER_SIZE" and "checksum_param s = 0"
  shows "\<exists>s'. feed e (sentence fs [h1, h2] @ [0x0D, 0x0A]) s =
             Inr (replicate (length (sentence fs [h1, h2]) + 2) False, s') \<and>
          gpsSol s' = commit_rmc (rmc_msg (recorded f7) (recorded f8) (gps_Msg s)) (gpsSol s) \<and>
          gpsStats s' = (gpsStats s)\<lparr>packetCount := packetCount (gpsStats s) + 1\<rparr>"
proof -
  have ne: "fs \<noteq> []" using assms(2) by simp
  from feed_sentence_long[OF ne assms(3,5,6) _ assms(9), of e] assms(8) obtain str where
    fd: "\<And>ok s'. nmea_terminator e (term_state e (map recorded fs) h1 h2 str s) = Inr (ok, s') \<Longrightarrow>
       feed e (sentence fs [h1, h2] @ [0x0D, 0x0A]) s =
         Inr (replicate (length (sentence fs [h1, h2])) False @ [ok, False], s')"
    by (auto simp: NMEA_BUFFER_SIZE_def)
  have rec: "map recorded fs =
      ident # recorded f1 # recorded f2 # recorded f3 # recorded f4 # recorded f5 # recorded f6 #
      recorded f7 # recorded f8 # map recorded rest"
    unfolding assms(2) using recorded_ident[of ident] assms(1) by simp
  have "length (map recorded rest) \<le> 247" using assms(2,4) by simp
  from fields_fold_rmc[OF assms(1) this, of e "recorded f1" "recorded f2" "recorded f3" "recorded f4"
      "recorded f5" "recorded f6" "recorded f7" "recorded f8" "gps_frame s" "gps_Msg s"]
  obtain p where
    ff: "fields_fold e (map recorded fs) (0, gps_frame s, gps_Msg s) =
           (p, FRAME_RMC, rmc_msg (recorded f7) (recorded f8) (gps_Msg s))"
    unfolding rec rmc_msg_def by blast
  from terminator_match[OF assms(5-7) ff, of str] obtain s' where
    t: "nmea_terminator e (term_state e (map recorded fs) h1 h2 str s) = Inr (False, s')" and
    r: "gpsSol s' = commit_rmc (rmc_msg (recorded f7) (recorded f8) (gps_Msg s)) (gpsSol s)"
       "gpsStats s' = (gpsStats s)\<lparr>packetCount := packetCount (gpsStats s) + 1\<rparr>"
    by (auto simp: FRAME_GGA_def FRAME_RMC_def)
  have "replicate (length (sentence fs [h1, h2])) False @ [False, False] =
        replicate (length (sentence fs [h1, h2]) + 2) False"
    by (simp add: replicate_add replicate_app_Cons_same)
  with fd[OF t] r show ?thesis by auto
qed

lemma wf_examples:
  "list_all wf_field example_gga" "list_all wf_field example_gga_nofix"
  "list_all wf_field example_rmc" "list_all wf_field example_rmc_fast"
  by (simp_all add: example_gga_def example_gga_nofix_def example_rmc_def example_rmc_fast_def
        wf_field_def field_byte_def bytes_def NMEA_BUFFER_SIZE_def)

lemma xor_examples:
  "xor_bytes (join_fields example_gga) = 0x47"
  "xor_bytes (join_fields example_gga_nofix) = 0x4B"
  "xor_bytes (join_fields example_rmc) = 0x6F"
  "xor_bytes (join_fields example_rmc_fast) = 0x5C"
  by (simp_all add: example_gga_def example_gga_nofix_def example_rmc_def example_rmc_fast_def bytes_def)

lemma init_props:
  "length (string (nmea_init sol st)) = NMEA_BUFFER_SIZE" "checksum_param (nmea_init sol st) = 0"
  "gpsSol (nmea_init sol st) = sol" "gpsStats (nmea_init sol st) = st"
  by (simp_all add: nmea_init_def)

lemma field_value_examples:
  "field_value (bytes ''08'') 0 = 8" "field_value (bytes ''05'') 0 = 5"
  "field_value (bytes ''0.9'') 1 = 9" "field_value (bytes ''545.4'') 1 = 5454"
  "field_value (bytes ''100.0'') 1 = 1000" "field_value (bytes ''084.4'') 1 = 844"
  "field_value (bytes ''2000.0'') 1 = 20000"
  by (simp_all add: field_value_def grab_fields_def grab_loop.simps grab_digit_def is_digit_def
        bytes_def NMEA_BUFFER_SIZE_def)

lemma examples_storable:
  "list_all storable example_gga" "map recorded example_gga = example_gga"
  "list_all storable example_gga_nofix" "map recorded example_gga_nofix = example_gga_nofix"
  "list_all storable example_rmc" "map recorded example_rmc = example_rmc"
  "list_all storable example_rmc_fast" "map recorded example_rmc_fast = example_rmc_fast"
  using wf_fields_recorded[OF wf_examples(1)] wf_fields_recorded[OF wf_examples(2)]
    wf_fields_recorded[OF wf_examples(3)] wf_fields_recorded[OF wf_examples(4)]
  by simp_all

lemma recorded_examples:
  "recorded (bytes ''4807.038'') = bytes ''4807.038''" "recorded (bytes ''N'') = bytes ''N''"
  "recorded (bytes ''01131.000'') = bytes ''01131.000''" "recorded (bytes ''E'') = bytes ''E''"
  "recorded (bytes ''1'') = bytes ''1''" "recorded (bytes ''0'') = bytes ''0''"
  "recorded (bytes ''08'') = bytes ''08''" "recorded (bytes ''05'') = bytes ''05''"
  "recorded (bytes ''0.9'') = bytes ''0.9''" "recorded (bytes ''545.4'') = bytes ''545.4''"
  "recorded (bytes ''100.0'') = bytes ''100.0''" "recorded (bytes ''084.4'') = bytes ''084.4''"
  by (simp_all add: recorded_short bytes_def)

lemma speed_fits:
  fixes v :: "32 word"
  assumes "unat v * 5144 div 1000 < 65536"
  shows "unat (ucast ((v * 5144) div 1000) :: 16 word) = unat v * 5144 div 1000"
proof -
  from assms have "unat v * 5144 < 2 ^ 32" by simp
  then have m: "unat (v * 5144) = unat v * 5144"
    by (simp add: unat_word_ariths)
  have d: "unat ((v * 5144) div 1000) = unat v * 5144 div 1000"
    by (simp add: unat_div m)
  have "unat (ucast ((v * 5144) div 1000) :: 16 word) = unat ((v * 5144) div 1000) mod 65536"
    by (simp add: unsigned_ucast_eq take_bit_eq_mod)
  with assms d show ?thesis by simp
qed

section \<open>Properties of the driver\<close>

lemma separator_sol: "nmea_separator e c s = Inr s' \<Longrightarrow> gpsSol s' = gpsSol s"
  by (auto simp: nmea_separator_def Let_def split: if_splits sum.splits)

lemma store_sol: "nmea_store c s = Inr s' \<Longrightarrow> gpsSol s' = gpsSol s"
  by (auto simp: nmea_store_def split: if_splits)

lemma terminator_flags:
  assumes "nmea_terminator e s = Inr (ok, s')"
  shows "(velNE s' \<longrightarrow> velNE s) \<and> (velD s' \<longrightarrow> velD s) \<and> (ok \<longrightarrow> \<not> velNE s' \<and> \<not> velD s')"
  using assms
  by (auto simp: nmea_terminator_def commit_gga_def commit_rmc_def Let_def split: if_splits)

lemma step_flags:
  assumes "gpsNewFrameNMEA e c s = Inr (ok, s')"
  shows "(velNE s' \<longrightarrow> velNE s) \<and> (velD s' \<longrightarrow> velD s) \<and> (ok \<longrightarrow> \<not> velNE s' \<and> \<not> velD s')"
proof -
  consider (d) "c = 0x24" | (s) "c \<noteq> 0x24" "c = 0x2C \<or> c = 0x2A"
    | (t) "c \<noteq> 0x24" "\<not> (c = 0x2C \<or> c = 0x2A)" "c = 0x0D \<or> c = 0x0A"
    | (o) "c \<noteq> 0x24" "\<not> (c = 0x2C \<or> c = 0x2A)" "\<not> (c = 0x0D \<or> c = 0x0A)" by blast
  then show ?thesis
  proof cases
    case d
    with assms show ?thesis by (auto simp: gpsNewFrameNMEA_def)
  next
    case s
    with assms show ?thesis
      by (auto simp: gpsNewFrameNMEA_def split: sum.splits dest: separator_sol)
  next
    case t
    with assms have "nmea_terminator e s = Inr (ok, s')" by (simp add: gpsNewFrameNMEA_def)
    then show ?thesis by (rule terminator_flags)
  next
    case o
    with assms show ?thesis
      by (auto simp: gpsNewFrameNMEA_def split: sum.splits dest: store_sol)
  qed
qed

lemma receive_loop_flags:
  assumes "receive_loop e rx h s = Inr (h', s')"
  shows "(velNE s' \<longrightarrow> velNE s) \<and> (velD s' \<longrightarrow> velD s) \<and> (h' \<longrightarrow> h \<or> \<not> velNE s' \<and> \<not> velD s')"
  using assms
proof (induction rx arbitrary: h s)
  case Nil
  then show ?case by simp
next
  case (Cons c rx)
  from Cons.prems obtain ok s1 where st: "gpsNewFrameNMEA e c s = Inr (ok, s1)"
    by (auto split: sum.splits)
  note sf = step_flags[OF st]
  show ?case
  proof (cases ok)
    case True
    define s2 where "s2 = s1\<lparr>gpsSol := (gpsSol s1)\<lparr>flags := (flags (gpsSol s1))
                 \<lparr>gpsHeartbeat := \<not> gpsHeartbeat (flags (gpsSol s1)),
                  validVelNE := False, validVelD := False\<rparr>\<rparr>\<rparr>"
    from Cons.prems st True have "receive_loop e rx True s2 = Inr (h', s')"
      by (simp add: s2_def)
    from Cons.IH[OF this] have "\<not> velNE s'" "\<not> velD s'" by (auto simp: s2_def)
    then show ?thesis by simp
  next
    case False
    with Cons.prems st have "receive_loop e rx h s1 = Inr (h', s')" by simp
    from Cons.IH[OF this] sf show ?thesis by blast
  qed
qed


lemma gpsReceiveData_flags:
  assumes "gpsReceiveData e d = Inr (h, d')"
  shows "(velNE (nmea_st d') \<longrightarrow> velNE (nmea_st d)) \<and> (velD (nmea_st d') \<longrightarrow> velD (nmea_st d)) \<and>
         (h \<longrightarrow> \<not> velNE (nmea_st d') \<and> \<not> velD (nmea_st d'))"
proof (cases "gpsPort (gpsState d)")
  case None
  with assms show ?thesis by (auto simp: gpsReceiveData_def)
next
  case (Some p)
  with assms obtain s' where r: "receive_loop e (rxQueue p) False (nmea_st d) = Inr (h, s')"
    and d': "nmea_st d' = s'"
    by (auto simp: gpsReceiveData_def split: sum.splits)
  from receive_loop_flags[OF r] show ?thesis unfolding d' by blast
qed

lemma gpsChangeBaud_nmea:
  "gpsChangeBaud x d = Inr (r, d') \<Longrightarrow> nmea_st d' = nmea_st d \<and> \<not> r"
  by (auto simp: gpsChangeBaud_def Let_def split: if_splits option.splits)

lemma gpsConfigure_false: "gpsConfigure x now g = Inr (r, g') \<Longrightarrow> \<not> r"
  by (auto simp: gpsConfigure_def split: if_splits sum.splits)

lemma gpsConfigure_PSRF_false: "gpsConfigure_PSRF x now g = Inr (r, g') \<Longrightarrow> \<not> r"
  by (auto simp: gpsConfigure_PSRF_def split: if_splits sum.splits)

lemma phase_step_nmea:
  assumes "(case state (gpsState d) of
             GPS_INITIALIZING \<Rightarrow> Inr (gpsInitialize x d)
           | GPS_CHANGE_BAUD \<Rightarrow> gpsChangeBaud x d
           | GPS_CHECK_VERSION \<Rightarrow>
               (if autoConfig (gpsConfig (gpsState d)) = GPS_AUTOCONFIG_OFF then
                  Inr (False, d\<lparr>gpsState := gpsSetState x GPS_RECEIVING_DATA (millis d) (gpsState d)\<rparr>)
                else
                  (case (if provider (gpsConfig (gpsState d)) = GPS_NMEA_PSRF
                         then gpsConfigure_PSRF x (millis d) (gpsState d)
                         else gpsConfigure x (millis d) (gpsState d)) of
                     Inl f \<Rightarrow> Inl f | Inr (r, g') \<Rightarrow> Inr (r, d\<lparr>gpsState := g'\<rparr>)))
           | GPS_CONFIGURE \<Rightarrow>
               (if autoConfig (gpsConfig (gpsState d)) = GPS_AUTOCONFIG_OFF then
                  Inr (False, d\<lparr>gpsState := gpsSetState x GPS_RECEIVING_DATA (millis d) (gpsState d)\<rparr>)
                else
                  (case (if provider (gpsConfig (gpsState d)) = GPS_NMEA_PSRF
                         then gpsConfigure_PSRF x (millis d) (gpsState d)
                         else gpsConfigure x (millis d) (gpsState d)) of
                     Inl f \<Rightarrow> Inl f | Inr (r, g') \<Rightarrow> Inr (r, d\<lparr>gpsState := g'\<rparr>)))
           | GPS_RECEIVING_DATA \<Rightarrow> Inr (h, d)
           | _ \<Rightarrow> Inr (False, d)) = Inr (r, d')"
  shows "nmea_st d' = nmea_st d \<and> (r \<longrightarrow> h)"
proof (cases "state (gpsState d)")
  case GPS_CHANGE_BAUD
  with assms show ?thesis by (auto dest: gpsChangeBaud_nmea)
next
  case GPS_CHECK_VERSION
  with assms show ?thesis
    by (auto split: if_splits sum.splits dest: gpsConfigure_false gpsConfigure_PSRF_false)
next
  case GPS_CONFIGURE
  with assms show ?thesis
    by (auto split: if_splits sum.splits dest: gpsConfigure_false gpsConfigure_PSRF_false)
qed (use assms in \<open>auto simp: gpsInitialize_def\<close>)

lemma gpsHandleNMEA_flags:
  assumes "gpsHandleNMEA x e d = Inr (r, d')"
  shows "(velNE (nmea_st d') \<longrightarrow> velNE (nmea_st d)) \<and> (velD (nmea_st d') \<longrightarrow> velD (nmea_st d)) \<and>
         (r \<longrightarrow> \<not> velNE (nmea_st d') \<and> \<not> velD (nmea_st d'))"
proof -
  from assms obtain h d1 where rd: "gpsReceiveData e d = Inr (h, d1)"
    by (auto simp: gpsHandleNMEA_def split: sum.splits)
  from assms have ph: "nmea_st d' = nmea_st d1 \<and> (r \<longrightarrow> h)"
    unfolding gpsHandleNMEA_def rd by (intro phase_step_nmea[of d1 x h r d']) simp
  from gpsReceiveData_flags[OF rd] ph show ?thesis by auto
qed

lemma before_tick_nmea: "nmea_st (before_tick i d) = nmea_st d"
  by (simp add: before_tick_def)

lemma run_ticks_flags:
  assumes "run_ticks x e inputs d = Inr (rs, d')"
  shows "(velNE (nmea_st d') \<longrightarrow> velNE (nmea_st d)) \<and> (velD (nmea_st d') \<longrightarrow> velD (nmea_st d)) \<and>
         (True \<in> set rs \<longrightarrow> \<not> velNE (nmea_st d') \<and> \<not> velD (nmea_st d'))"
  using assms
proof (induction inputs arbitrary: d rs)
  case Nil
  then show ?case by simp
next
  case (Cons i inputs)
  from Cons.prems obtain r d1 rs1 where
    h: "gpsHandleNMEA x e (before_tick i d) = Inr (r, d1)" and
    t: "run_ticks x e inputs d1 = Inr (rs1, d')" and rs: "rs = r # rs1"
    by (auto split: sum.splits)
  note a = gpsHandleNMEA_flags[OF h, unfolded before_tick_nmea]
  note b = Cons.IH[OF t]
  from a b show ?case unfolding rs by auto
qed

section \<open>Claims about the field decoder\<close>

text \<open>
  Claim C4, as stated: \<open>grab_fields\<close> has no side effects, it leaves the caller's buffer
  unchanged. This fails: decoding \<open>1234.56\<close> with one fractional digit overwrites the \<open>6\<close>
  with a NUL (line 112, \<open>src[i + mult] = 0\<close>).
\<close>

theorem grab_fields_writes_buffer:
  "grab_fields (bytes ''1234.56'' @ [0]) 1 = Inr (12345, bytes ''1234.5'' @ [0, 0]) \<and>
   bytes ''1234.5'' @ [0, 0] \<noteq> bytes ''1234.56'' @ [0]"
  by (simp add: grab_fields_def grab_loop.simps grab_digit_def is_digit_def bytes_def)

text \<open>
  Claim C4, amended: \<open>grab_fields\<close> is a function of the buffer and the fractional-digit
  count alone (it is deterministic: the model is a HOL function of these two arguments,
  as the C code reads nothing else). Its only effect on the buffer is to overwrite bytes
  with NUL: the buffer keeps its length and every byte is either unchanged or NUL; with a
  fractional-digit count of 0 the buffer is unchanged.
\<close>

theorem grab_fields_buffer_effect:
  assumes "grab_fields src mult = Inr (v, src')"
  shows "length src' = length src \<and>
         (\<forall>k < length src. src' ! k = src ! k \<or> src' ! k = 0) \<and>
         (mult = 0 \<longrightarrow> src' = src)"
  using grab_loop_frame[OF assms[unfolded grab_fields_def]] by simp

theorem grab_fields_buffer_effect_witness:
  "grab_fields (bytes ''1234.56'' @ [0]) 1 = Inr (12345, bytes ''1234.5'' @ [0, 0]) \<and>
   length (bytes ''1234.5'' @ [0, 0]) = length (bytes ''1234.56'' @ [0]) \<and>
   ((bytes ''1234.5'' @ [0, 0]) ! 6 = (bytes ''1234.56'' @ [0]) ! 6 \<or>
    (bytes ''1234.5'' @ [0, 0]) ! 6 = 0)"
proof -
  have g: "grab_fields (bytes ''1234.56'' @ [0]) 1 = Inr (12345, bytes ''1234.5'' @ [0, 0])"
    by (simp add: grab_fields_def grab_loop.simps grab_digit_def is_digit_def bytes_def)
  have "(6::nat) < length (bytes ''1234.56'' @ [0])" by (simp add: bytes_def)
  with grab_fields_buffer_effect[OF g] g show ?thesis by blast
qed

text \<open>
  Claim C5, as stated: a character that is neither a digit nor a decimal point is skipped
  without altering the accumulator, so that the result equals that of decoding the string
  with these characters deleted. This fails: the loop multiplies the accumulator by ten
  for every character (line 114) and only the addition is guarded by the digit test, so
  \<open>1a2\<close> decodes to 102 while \<open>12\<close> decodes to 12.
\<close>

theorem grab_fields_nondigit_not_skipped:
  "grab_fields (bytes ''1a2'' @ [0]) 0 = Inr (102, bytes ''1a2'' @ [0]) \<and>
   grab_fields (bytes ''12'' @ [0]) 0 = Inr (12, bytes ''12'' @ [0]) \<and>
   (102 :: 32 word) \<noteq> 12"
  by (simp add: grab_fields_def grab_loop.simps grab_digit_def is_digit_def bytes_def)

text \<open>
  Claim C5, amended: a character that is neither a digit nor a decimal point adds nothing
  to the accumulator but still shifts it by one decimal place, as the digit \<open>0\<close> does: the
  value decoded from a buffer equals the value decoded from the buffer in which every such
  character (other than the terminating NUL) is replaced by \<open>0\<close>.
\<close>

theorem grab_fields_nondigit_as_zero:
  "map_sum id fst (grab_fields (map zero_fill src) mult) = map_sum id fst (grab_fields src mult)"
  unfolding grab_fields_def grab_loop_zero_fill
  by (cases "grab_loop src mult 0 0") auto

text \<open>
  Claim C6, as stated: \<open>1234.56\<close> with 2 fractional digits decodes to 123456; with 0
  fractional digits to 1234, the scan stopping at the decimal point; \<open>00.0\<close> with 1
  fractional digit to 0; and any numeric string whose scanned length reaches 16 or more
  characters decodes to 0. The last part fails when the 16th character is the decimal
  point and the fractional-digit count is 0: the \<open>break\<close> of line 110 leaves the loop before
  the test \<open>i >= 15\<close> of line 117 is reached, so \<open>123456789012345.\<close> decodes to
  123456789012345 modulo \<open>2^32\<close>, which is 2249056121.
\<close>

theorem grab_fields_point_at_bound:
  "grab_fields (bytes ''123456789012345.'' @ [0]) 0 =
     Inr (2249056121, bytes ''123456789012345.'' @ [0]) \<and>
   (2249056121 :: 32 word) \<noteq> 0 \<and>
   length (bytes ''123456789012345.'') = 16"
  by (simp add: grab_fields_def grab_loop.simps grab_digit_def is_digit_def bytes_def)

text \<open>
  Claim C6, amended: the three input/output pairs hold (the buffer holds the string, its
  NUL and any bytes \<open>rest\<close> after it), and a numeric string whose scan reaches a 16th
  character decodes to 0 unless the scan ends at a decimal point with a fractional-digit
  count of 0. In full:

  \<^item> every buffer whose first 16 bytes are digits decodes to 0, for every count;

  \<^item> with a count \<open>mult\<close> of at least 1, digits \<open>ds\<close> (at most 15), a decimal point and digits
    \<open>es\<close> decode to 0 when the string has at least 16 characters and the NUL that the
    decoder writes at index \<open>length ds + 1 + mult\<close> lies beyond the 16th character (and
    inside the buffer);

  \<^item> with a count of 0, up to 15 digits followed by a decimal point give the value of
    the digits in \<open>uint32_t\<close> arithmetic, whatever follows the point: the scan stops at the
    decimal point, also when the point is the 16th character.
\<close>

theorem grab_fields_examples:
  "grab_fields (bytes ''1234.56'' @ 0 # rest) 2 = Inr (123456, bytes ''1234.56'' @ 0 # rest) \<and>
   grab_fields (bytes ''1234.56'' @ 0 # rest) 0 = Inr (1234, bytes ''1234.56'' @ 0 # rest) \<and>
   grab_fields (bytes ''00.0'' @ 0 # rest) 1 = Inr (0, bytes ''00.0'' @ 0 # rest) \<and>
   (16 \<le> length src \<and> list_all is_digit (take 16 src) \<longrightarrow>
      grab_fields src mult = Inr (0, src)) \<and>
   (list_all is_digit ds \<and> list_all is_digit es \<and> mult \<noteq> 0 \<and> length ds \<le> 15 \<and>
    15 \<le> length ds + length es \<and> 15 \<le> length ds + unat mult \<and>
    Suc (length ds) + unat mult < length (ds @ 0x2E # es @ rest) \<longrightarrow>
      grab_fields (ds @ 0x2E # es @ rest) mult =
        Inr (0, (ds @ 0x2E # es @ rest)[Suc (length ds) + unat mult := 0])) \<and>
   (list_all is_digit ds \<and> length ds \<le> 15 \<longrightarrow>
      grab_fields (ds @ 0x2E # rest) 0 =
        Inr (foldl (\<lambda>tmp c. tmp * 10 + ucast (c - 0x30)) 0 ds, ds @ 0x2E # rest))"
proof -
  have a: "grab_fields (bytes ''1234.56'' @ 0 # rest) 2 = Inr (123456, bytes ''1234.56'' @ 0 # rest)"
    by (simp add: grab_fields_def grab_loop.simps grab_digit_def is_digit_def bytes_def)
  have b: "grab_fields (bytes ''1234.56'' @ 0 # rest) 0 = Inr (1234, bytes ''1234.56'' @ 0 # rest)"
    by (simp add: grab_fields_def grab_loop.simps grab_digit_def is_digit_def bytes_def)
  have c: "grab_fields (bytes ''00.0'' @ 0 # rest) 1 = Inr (0, bytes ''00.0'' @ 0 # rest)"
    by (simp add: grab_fields_def grab_loop.simps grab_digit_def is_digit_def bytes_def)
  have d: "grab_fields src mult = Inr (0, src)"
    if "16 \<le> length src" "list_all is_digit (take 16 src)"
    unfolding grab_fields_def
  proof (rule grab_loop_digits)
    show "16 \<le> length src" by (rule that(1))
    show "\<forall>k. 0 \<le> k \<and> k \<le> 15 \<longrightarrow> is_digit (src ! k)"
    proof (intro allI impI)
      fix k :: nat
      assume "0 \<le> k \<and> k \<le> 15"
      then have k: "k < length (take 16 src)" using that(1) by simp
      from that(2) k have "is_digit (take 16 src ! k)" by (simp add: list_all_length)
      then show "is_digit (src ! k)" using k by simp
    qed
  qed simp
  from a b c d grab_fields_point_bound[of ds es mult rest] grab_fields_point_zero[of ds rest]
  show ?thesis by blast
qed

theorem grab_fields_examples_witness:
  "16 \<le> length (bytes ''1234567890123456.78'' @ [0]) \<and>
   list_all is_digit (take 16 (bytes ''1234567890123456.78'' @ [0])) \<and>
   grab_fields (bytes ''1234567890123456.78'' @ [0]) 2 =
     Inr (0, bytes ''1234567890123456.78'' @ [0]) \<and>
   list_all is_digit (bytes ''1234567890123'') \<and> list_all is_digit (bytes ''45'') \<and>
   grab_fields (bytes ''1234567890123'' @ 0x2E # bytes ''45'' @ [0, 0]) 2 =
     Inr (0, bytes ''1234567890123'' @ 0x2E # bytes ''45'' @ [0, 0]) \<and>
   grab_fields (bytes ''12345'' @ 0x2E # bytes ''678'' @ [0]) 0 =
     Inr (12345, bytes ''12345'' @ 0x2E # bytes ''678'' @ [0]) \<and>
   grab_fields (bytes ''1234.56'' @ 0 # []) 2 = Inr (123456, bytes ''1234.56'' @ 0 # [])"
proof -
  have h: "16 \<le> length (bytes ''1234567890123456.78'' @ [0]) \<and>
           list_all is_digit (take 16 (bytes ''1234567890123456.78'' @ [0]))"
    by (simp add: bytes_def is_digit_def)
  from grab_fields_examples[of "[]" "bytes ''1234567890123456.78'' @ [0]" 2 "[]" "[]"] h
  have p1: "grab_fields (bytes ''1234567890123456.78'' @ [0]) 2 =
     Inr (0, bytes ''1234567890123456.78'' @ [0])"
    "grab_fields (bytes ''1234.56'' @ 0 # []) 2 = Inr (123456, bytes ''1234.56'' @ 0 # [])"
    by blast+
  have k: "list_all is_digit (bytes ''1234567890123'')" "list_all is_digit (bytes ''45'')"
    "(2 :: byte) \<noteq> 0" "length (bytes ''1234567890123'') \<le> 15"
    "15 \<le> length (bytes ''1234567890123'') + length (bytes ''45'')"
    "15 \<le> length (bytes ''1234567890123'') + unat (2 :: byte)"
    "Suc (length (bytes ''1234567890123'')) + unat (2 :: byte) <
       length (bytes ''1234567890123'' @ 0x2E # bytes ''45'' @ [0, 0])"
    by (simp_all add: bytes_def is_digit_def)
  have u: "(bytes ''1234567890123'' @ 0x2E # bytes ''45'' @ [0, 0])
             [Suc (length (bytes ''1234567890123'')) + unat (2 :: byte) := 0] =
           bytes ''1234567890123'' @ 0x2E # bytes ''45'' @ [0, 0]"
    by (simp add: bytes_def)
  from grab_fields_examples[of "[0, 0]" "[]" 2 "bytes ''1234567890123''" "bytes ''45''"] k
  have p2: "grab_fields (bytes ''1234567890123'' @ 0x2E # bytes ''45'' @ [0, 0]) 2 =
     Inr (0, bytes ''1234567890123'' @ 0x2E # bytes ''45'' @ [0, 0])"
    unfolding u by blast
  have j: "list_all is_digit (bytes ''12345'') \<and> length (bytes ''12345'') \<le> 15"
    by (simp add: bytes_def is_digit_def)
  have v: "foldl (\<lambda>tmp c. tmp * 10 + ucast (c - 0x30)) (0 :: 32 word) (bytes ''12345'') = 12345"
    by (simp add: bytes_def)
  from grab_fields_examples[of "bytes ''678'' @ [0]" "[]" 0 "bytes ''12345''" "[]"] j
  have p3: "grab_fields (bytes ''12345'' @ 0x2E # bytes ''678'' @ [0]) 0 =
     Inr (12345, bytes ''12345'' @ 0x2E # bytes ''678'' @ [0])"
    unfolding v[symmetric] by blast
  from h k(1,2) p1 p2 p3 show ?thesis by blast
qed
section \<open>Claims about the sentence parser\<close>




text \<open>
  Claim C2, as stated: for every sentence whose two trailing checksum digits do not equal
  the exclusive-or of all bytes between \<open>$\<close> and \<open>*\<close>, the error counter is incremented by
  one and the navigation solution is unchanged. This fails for a sentence with a field of
  more than 15 bytes: the bytes beyond the 15th are dropped and not folded into the
  running checksum (lines 264 to 269). The example sentence with a 16-byte time field has
  exclusive-or 47 over all its bytes; sent with the digits 77, the exclusive-or of the
  recorded bytes, it is accepted: frame-ready is returned, the error counter stays at 5
  and the latitude is committed.
\<close>

theorem checksum_of_recorded_bytes_only:
  "xor_bytes (join_fields example_gga_long) = 0x47 \<and>
   16 * hex_nat 0x37 + hex_nat 0x37 = 0x77 \<and>
   map_sum id fst
     (feed sample_env (sentence example_gga_long (bytes ''77'') @ [0x0D, 0x0A])
        (nmea_init sample_sol sample_stats)) = Inr (replicate 75 False @ [True, False]) \<and>
   map_sum id (errors \<circ> gpsStats \<circ> snd)
     (feed sample_env (sentence example_gga_long (bytes ''77'') @ [0x0D, 0x0A])
        (nmea_init sample_sol sample_stats)) = Inr 5 \<and>
   map_sum id (lat \<circ> llh \<circ> gpsSol \<circ> snd)
     (feed sample_env (sentence example_gga_long (bytes ''77'') @ [0x0D, 0x0A])
        (nmea_init sample_sol sample_stats)) = Inr 4807 \<and>
   lat (llh sample_sol) = 11"
proof -
  have "map_sum id fst
     (feed sample_env (sentence example_gga_long (bytes ''77'') @ [0x0D, 0x0A])
        (nmea_init sample_sol sample_stats)) = Inr (replicate 75 False @ [True, False]) \<and>
   map_sum id (errors \<circ> gpsStats \<circ> snd)
     (feed sample_env (sentence example_gga_long (bytes ''77'') @ [0x0D, 0x0A])
        (nmea_init sample_sol sample_stats)) = Inr 5 \<and>
   map_sum id (lat \<circ> llh \<circ> gpsSol \<circ> snd)
     (feed sample_env (sentence example_gga_long (bytes ''77'') @ [0x0D, 0x0A])
        (nmea_init sample_sol sample_stats)) = Inr 4807"
    by code_simp
  moreover have "xor_bytes (join_fields example_gga_long) = 0x47"
    by (simp add: example_gga_long_def bytes_def)
  ultimately show ?thesis by (simp add: hex_nat_def sample_sol_def)
qed

text \<open>
  Claim C2, amended: for every sentence whose two trailing checksum digits do not equal
  the exclusive-or of the bytes the parser records between \<open>$\<close> and \<open>*\<close> (all of them when
  no field is longer than 15 bytes, the first 15 bytes of a longer field), processing the
  sentence increments the checksum-error counter by exactly one and leaves the navigation
  solution unchanged; no frame-ready signal is returned and the packet counter does not
  move.

  The sentences quantified over: \<open>$\<close>, the fields joined by commas, \<open>*\<close>, two upper-case
  hexadecimal checksum characters, CR and LF. A field may have any length; \<open>recorded\<close>
  gives the bytes of it the parser records. The fields hold none of NUL, \<open>$\<close>, \<open>,\<close>, \<open>*\<close>, CR
  and LF and none has a decimal point as its 15th byte (\<open>storable\<close>; for such a field
  \<open>grab_fields\<close> writes \<open>string[16]\<close>). The sentence is fed to a parser that is not in
  checksum-capture mode (\<open>checksum_param = 0\<close>, as at power-on and after every line
  terminator), in any other state.
\<close>

theorem checksum_mismatch_discards:
  assumes "fs \<noteq> []" and "list_all storable fs" and "is_hex h1" and "is_hex h2"
    and "16 * hex_nat h1 + hex_nat h2 \<noteq> unat (xor_bytes (join_fields (map recorded fs)))"
    and "length (string s) = NMEA_BUFFER_SIZE" and "checksum_param s = 0"
  shows "\<exists>s'. feed e (sentence fs [h1, h2] @ [0x0D, 0x0A]) s =
             Inr (replicate (length (sentence fs [h1, h2]) + 2) False, s') \<and>
          errors (gpsStats s') = errors (gpsStats s) + 1 \<and>
          packetCount (gpsStats s') = packetCount (gpsStats s) \<and>
          gpsSol s' = gpsSol s"
proof -
  from feed_sentence_long[OF assms(1-4) _ assms(7), of e] assms(6) obtain str where
    fd: "\<And>ok s'. nmea_terminator e (term_state e (map recorded fs) h1 h2 str s) = Inr (ok, s') \<Longrightarrow>
       feed e (sentence fs [h1, h2] @ [0x0D, 0x0A]) s =
         Inr (replicate (length (sentence fs [h1, h2])) False @ [ok, False], s')"
    by (auto simp: NMEA_BUFFER_SIZE_def)
  from terminator_mismatch[OF assms(3-5), of e str s] obtain s' where
    t: "nmea_terminator e (term_state e (map recorded fs) h1 h2 str s) = Inr (False, s')" and
    r: "errors (gpsStats s') = errors (gpsStats s) + 1"
       "packetCount (gpsStats s') = packetCount (gpsStats s)" "gpsSol s' = gpsSol s"
    by blast
  have "replicate (length (sentence fs [h1, h2])) False @ [False, False] =
        replicate (length (sentence fs [h1, h2]) + 2) False"
    by (simp add: replicate_add replicate_app_Cons_same)
  with fd[OF t] r show ?thesis by auto
qed

theorem checksum_mismatch_discards_witness:
  "\<exists>s'. feed sample_env (sentence example_gga (bytes ''48'') @ [0x0D, 0x0A])
            (nmea_init sample_sol sample_stats) = Inr (replicate 67 False, s') \<and>
        errors (gpsStats s') = 6 \<and> packetCount (gpsStats s') = 9 \<and> gpsSol s' = sample_sol"
proof -
  note st = wf_fields_recorded[OF wf_examples(1)]
  have h: "is_hex 0x34" "is_hex 0x38"
    "16 * hex_nat 0x34 + hex_nat 0x38 \<noteq> unat (xor_bytes (join_fields (map recorded example_gga)))"
    by (simp_all add: is_hex_def hex_nat_def xor_examples st)
  have ne: "example_gga \<noteq> []" by (simp add: example_gga_def)
  have len: "length (sentence example_gga [0x34, 0x38]) + 2 = 67"
    by (simp add: sentence_def example_gga_def bytes_def)
  from checksum_mismatch_discards[OF ne conjunct1[OF st] h init_props(1,2), of sample_env sample_sol sample_stats]
  show ?thesis
    unfolding len init_props by (simp add: bytes_def sample_stats_def)
qed

text \<open>
  Claim C3 says that a truncated sentence, cut at any point including after the \<open>*\<close>,
  does not disturb the parse of the complete sentence that follows it. The \<open>$\<close> case
  resets \<open>param\<close>, \<open>offset\<close> and \<open>parity\<close> but not \<open>checksum_param\<close>, so after a cut
  behind the \<open>*\<close> the bytes of the next sentence are not folded into the checksum. Here
  the example sentence alone is accepted (frame-ready at its CR, error counter still 5);
  preceded by a copy of itself that lost its last checksum digit and its line ending, it
  is rejected: no frame-ready signal, the error counter goes to 6 and the navigation
  solution is not updated.
\<close>

theorem resync_after_checksum_marker_fails:
  "map_sum id fst (feed sample_env (sentence example_gga (bytes ''47'') @ [0x0D, 0x0A])
      (nmea_init sample_sol sample_stats)) = Inr (replicate 65 False @ [True, False]) \<and>
   map_sum id (errors \<circ> gpsStats \<circ> snd)
     (feed sample_env (sentence example_gga (bytes ''47'') @ [0x0D, 0x0A])
        (nmea_init sample_sol sample_stats)) = Inr 5 \<and>
   map_sum id fst
     (feed sample_env
        (sentence example_gga (bytes ''4'') @ sentence example_gga (bytes ''47'') @ [0x0D, 0x0A])
        (nmea_init sample_sol sample_stats)) = Inr (replicate 131 False) \<and>
   map_sum id (errors \<circ> gpsStats \<circ> snd)
     (feed sample_env
        (sentence example_gga (bytes ''4'') @ sentence example_gga (bytes ''47'') @ [0x0D, 0x0A])
        (nmea_init sample_sol sample_stats)) = Inr 6 \<and>
   map_sum id (gpsSol \<circ> snd)
     (feed sample_env
        (sentence example_gga (bytes ''4'') @ sentence example_gga (bytes ''47'') @ [0x0D, 0x0A])
        (nmea_init sample_sol sample_stats)) = Inr sample_sol"
  by code_simp

text \<open>
  Claim C7, as stated: for every recommended-minimum-data (RMC) sentence with a correct
  checksum the committed ground speed equals the decoded speed field times 5144 divided
  by 1000. This fails for large speeds: \<open>gps_Msg.speed\<close> is a \<open>uint16_t\<close>. A speed field of
  \<open>2000.0\<close> decodes to 20000, and the committed ground speed is 37344, not 102880.
\<close>

theorem rmc_speed_truncated:
  "map_sum id (groundSpeed \<circ> gpsSol \<circ> snd)
     (feed sample_env (sentence example_rmc_fast (bytes ''5C'') @ [0x0D, 0x0A])
        (nmea_init sample_sol sample_stats)) = Inr 37344 \<and>
   field_value (bytes ''2000.0'') 1 = 20000 \<and>
   (20000 * 5144 div 1000 :: nat) = 102880 \<and>
   xor_bytes (join_fields example_rmc_fast) = 0x5C"
proof -
  have "map_sum id (groundSpeed \<circ> gpsSol \<circ> snd)
     (feed sample_env (sentence example_rmc_fast (bytes ''5C'') @ [0x0D, 0x0A])
        (nmea_init sample_sol sample_stats)) = Inr 37344"
    by code_simp
  then show ?thesis by (simp add: field_value_examples xor_examples)
qed

text \<open>
  Claim C7, amended: for every recommended-minimum-data sentence with a correct checksum
  the parser never returns the frame-ready signal, and it commits as ground speed the low
  16 bits of (decoded speed field with one fractional digit) * 5144 / 1000, computed with
  truncating division in unsigned 32-bit arithmetic, and as ground course the low 16 bits
  of the course field decoded with one fractional digit (degrees times ten). The ground
  speed equals decoded * 5144 / 1000 whenever that quotient is below 65536; in particular
  a decoded value of 1000 gives 5144.

  The sentences quantified over: \<open>$\<close>, the fields joined by commas, \<open>*\<close>, two upper-case
  hexadecimal checksum characters, CR and LF. A field may have any length; the parser
  records its first 15 bytes (\<open>recorded\<close>) and a correct checksum is one the parser accepts,
  the exclusive-or of the recorded bytes, which are all the bytes when no field is longer
  than 15 bytes. The fields hold none of NUL, \<open>$\<close>, \<open>,\<close>, \<open>*\<close>, CR and LF and none has a decimal
  point as its 15th byte (\<open>storable\<close>; for such a field \<open>grab_fields\<close> writes \<open>string[16]\<close>);
  there are at most 256 fields (\<open>param\<close> is a \<open>uint8_t\<close>). The sentence is fed to a parser
  that is not in checksum-capture mode (\<open>checksum_param = 0\<close>, as at power-on and after
  every line terminator), in any other state.
\<close>

theorem rmc_commits_speed_course:
  assumes "is_rmc ident"
    and "fs = ident # f1 # f2 # f3 # f4 # f5 # f6 # f7 # f8 # rest"
    and "list_all storable fs" and "length fs \<le> 256"
    and "is_hex h1" and "is_hex h2"
    and "16 * hex_nat h1 + hex_nat h2 = unat (xor_bytes (join_fields (map recorded fs)))"
    and "length (string s) = NMEA_BUFFER_SIZE" and "checksum_param s = 0"
  shows "\<exists>s'. feed e (sentence fs [h1, h2] @ [0x0D, 0x0A]) s =
             Inr (replicate (length (sentence fs [h1, h2]) + 2) False, s') \<and>
          groundSpeed (gpsSol s') = ucast ((field_value (recorded f7) 1 * 5144) div 1000) \<and>
          groundCourse (gpsSol s') = ucast (field_value (recorded f8) 1) \<and>
          (unat (field_value (recorded f7) 1) * 5144 div 1000 < 65536 \<longrightarrow>
             unat (groundSpeed (gpsSol s')) = unat (field_value (recorded f7) 1) * 5144 div 1000)"
proof -
  from rmc_sentence_long[OF assms(1-9), of e] obtain s' where
    f: "feed e (sentence fs [h1, h2] @ [0x0D, 0x0A]) s =
          Inr (replicate (length (sentence fs [h1, h2]) + 2) False, s')" and
    g: "gpsSol s' = commit_rmc (rmc_msg (recorded f7) (recorded f8) (gps_Msg s)) (gpsSol s)"
    by blast
  have a: "groundSpeed (gpsSol s') = ucast ((field_value (recorded f7) 1 * 5144) div 1000)"
    "groundCourse (gpsSol s') = ucast (field_value (recorded f8) 1)"
    unfolding g by (simp_all add: commit_rmc_def rmc_msg_def)
  have "unat (groundSpeed (gpsSol s')) = unat (field_value (recorded f7) 1) * 5144 div 1000"
    if "unat (field_value (recorded f7) 1) * 5144 div 1000 < 65536"
    unfolding a using that by (rule speed_fits)
  with f a show ?thesis by blast
qed

theorem rmc_commits_speed_course_witness:
  "\<exists>s'. feed sample_env (sentence example_rmc (bytes ''6F'') @ [0x0D, 0x0A])
            (nmea_init sample_sol sample_stats) = Inr (replicate 70 False, s') \<and>
        field_value (bytes ''100.0'') 1 = 1000 \<and>
        groundSpeed (gpsSol s') = 5144 \<and> groundCourse (gpsSol s') = 844"
proof -
  have h: "is_hex 0x36" "is_hex 0x46"
    "16 * hex_nat 0x36 + hex_nat 0x46 = unat (xor_bytes (join_fields (map recorded example_rmc)))"
    by (simp_all add: is_hex_def hex_nat_def xor_examples examples_storable)
  have g: "is_rmc (bytes ''GPRMC'')" by (simp add: is_rmc_def)
  have len: "length (sentence example_rmc [0x36, 0x46]) + 2 = 70" "length example_rmc \<le> 256"
    by (simp_all add: sentence_def example_rmc_def bytes_def)
  from rmc_commits_speed_course[OF g _ examples_storable(5) len(2) h init_props(1,2),
      of "bytes ''123519''" "bytes ''A''" "bytes ''4807.038''" "bytes ''N''" "bytes ''01131.000''"
         "bytes ''E''" "bytes ''100.0''" "bytes ''084.4''"
         "map bytes [''230394'', ''003.1'', ''W'']" sample_env sample_sol sample_stats]
  obtain s' where
    "feed sample_env (sentence example_rmc [0x36, 0x46] @ [0x0D, 0x0A])
       (nmea_init sample_sol sample_stats) = Inr (replicate 70 False, s')"
    "groundSpeed (gpsSol s') = 5144" "groundCourse (gpsSol s') = 844"
    unfolding len
    by (auto simp: example_rmc_def field_value_examples recorded_examples)
  then show ?thesis
    using field_value_examples(5) by (intro exI[of _ s']) (simp add: bytes_def)
qed

text \<open>
  Claim C10: for every checksum-valid fix-data sentence whose fix indicator has a first
  character \<open>0\<close> or lower (an empty field reads as NUL), the parser still returns the
  frame-ready signal at the line ending and commits the satellite count, sets the fix type
  to no-fix, and leaves latitude, longitude, altitude, HDOP and the horizontal and
  vertical error estimates of the navigation solution unchanged.

  The sentences quantified over: \<open>$\<close>, the fields joined by commas, \<open>*\<close>, two upper-case
  hexadecimal checksum characters, CR and LF. A field may have any length; the parser
  records its first 15 bytes (\<open>recorded\<close>) and a correct checksum is one the parser accepts,
  the exclusive-or of the recorded bytes, which are all the bytes when no field is longer
  than 15 bytes. The fields hold none of NUL, \<open>$\<close>, \<open>,\<close>, \<open>*\<close>, CR and LF and none has a decimal
  point as its 15th byte (\<open>storable\<close>; for such a field \<open>grab_fields\<close> writes \<open>string[16]\<close>);
  there are at most 256 fields (\<open>param\<close> is a \<open>uint8_t\<close>). The sentence is fed to a parser
  that is not in checksum-capture mode (\<open>checksum_param = 0\<close>, as at power-on and after
  every line terminator), in any other state.
\<close>

theorem gga_without_fix:
  assumes "is_gga ident"
    and "fs = ident # f1 # f2 # f3 # f4 # f5 # f6 # f7 # f8 # f9 # rest"
    and "list_all storable fs" and "length fs \<le> 256"
    and "is_hex h1" and "is_hex h2"
    and "16 * hex_nat h1 + hex_nat h2 = unat (xor_bytes (join_fields (map recorded fs)))"
    and "length (string s) = NMEA_BUFFER_SIZE" and "checksum_param s = 0"
    and "char_val e (first_char f6) \<le> 0x30"
  shows "\<exists>s'. feed e (sentence fs [h1, h2] @ [0x0D, 0x0A]) s =
             Inr (replicate (length (sentence fs [h1, h2])) False @ [True, False], s') \<and>
          sol_numSat (gpsSol s') = ucast (field_value (recorded f7) 0) \<and>
          fixType (gpsSol s') = GPS_NO_FIX \<and>
          llh (gpsSol s') = llh (gpsSol s) \<and>
          sol_hdop (gpsSol s') = sol_hdop (gpsSol s) \<and>
          eph (gpsSol s') = eph (gpsSol s) \<and>
          epv (gpsSol s') = epv (gpsSol s)"
proof -
  from gga_sentence_long[OF assms(1-9), of e] obtain s' where
    f: "feed e (sentence fs [h1, h2] @ [0x0D, 0x0A]) s =
          Inr (replicate (length (sentence fs [h1, h2])) False @ [True, False], s')" and
    g: "gpsSol s' =
          commit_gga e
            (gga_msg e (recorded f2) (recorded f3) (recorded f4) (recorded f5) (recorded f6)
               (recorded f7) (recorded f8) (recorded f9) (gps_Msg s))
            (gpsSol s)"
    by blast
  have nofix: "\<not> char_val e (first_char (recorded f6)) > 0x30"
    using assms(10) by (simp add: first_char_recorded)
  have "sol_numSat (gpsSol s') = ucast (field_value (recorded f7) 0)" "fixType (gpsSol s') = GPS_NO_FIX"
    "llh (gpsSol s') = llh (gpsSol s)" "sol_hdop (gpsSol s') = sol_hdop (gpsSol s)"
    "eph (gpsSol s') = eph (gpsSol s)" "epv (gpsSol s') = epv (gpsSol s)"
    unfolding g using nofix by (simp_all add: commit_gga_def gga_msg_def Let_def)
  with f show ?thesis by blast
qed

theorem gga_without_fix_witness:
  "\<exists>s'. feed sample_env (sentence example_gga_nofix (bytes ''4B'') @ [0x0D, 0x0A])
            (nmea_init sample_sol sample_stats) = Inr (replicate 65 False @ [True, False], s') \<and>
        sol_numSat (gpsSol s') = 5 \<and> fixType (gpsSol s') = GPS_NO_FIX \<and>
        llh (gpsSol s') = \<lparr>lat = 11, lon = 22, alt = 33\<rparr> \<and>
        sol_hdop (gpsSol s') = 88 \<and> eph (gpsSol s') = 66 \<and> epv (gpsSol s') = 77"
proof -
  have h: "is_hex 0x34" "is_hex 0x42"
    "16 * hex_nat 0x34 + hex_nat 0x42 = unat (xor_bytes (join_fields (map recorded example_gga_nofix)))"
    by (simp_all add: is_hex_def hex_nat_def xor_examples examples_storable)
  have g: "is_gga (bytes ''GPGGA'')" by (simp add: is_gga_def)
  have nf: "char_val sample_env (first_char (bytes ''0'')) \<le> 0x30"
    by (simp add: char_val_def sample_env_def first_char_def bytes_def)
  have len: "length (sentence example_gga_nofix [0x34, 0x42]) = 65" "length example_gga_nofix \<le> 256"
    by (simp_all add: sentence_def example_gga_nofix_def bytes_def)
  from gga_without_fix[OF g _ examples_storable(3) len(2) h init_props(1,2) nf,
      of "bytes ''123519''" "bytes ''4807.038''" "bytes ''N''" "bytes ''01131.000''" "bytes ''E''"
         "bytes ''05''" "bytes ''0.9''" "bytes ''545.4''" "map bytes [''M'', ''46.9'', ''M'', [], []]"
         sample_sol sample_stats]
  show ?thesis
    unfolding len init_props
    by (simp add: example_gga_nofix_def field_value_examples sample_sol_def recorded_examples)
       (simp add: bytes_def)
qed

section \<open>Claims about the driver\<close>

text \<open>
  Claim C8: across every sequence of driver invocations and input bytes the driver writes
  the velocity-north/east and velocity-down validity flags of the navigation solution only
  to 0. For a run of \<open>gpsHandleNMEA\<close> over any sequence of tick inputs that ends without a
  fault: a flag that is set afterwards was set before the run (the driver never sets one);
  if some invocation reported new data both flags are cleared at the end; and whenever
  \<open>gpsReceiveData\<close> accepts a frame, the one place where the driver writes the flags, they
  read as cleared when it returns.
\<close>

theorem velocity_flags_only_cleared:
  assumes "run_ticks x e inputs d = Inr (rs, d')"
  shows "(validVelNE (flags (gpsSol (nmea_st d'))) \<longrightarrow> validVelNE (flags (gpsSol (nmea_st d)))) \<and>
         (validVelD (flags (gpsSol (nmea_st d'))) \<longrightarrow> validVelD (flags (gpsSol (nmea_st d)))) \<and>
         (True \<in> set rs \<longrightarrow>
            \<not> validVelNE (flags (gpsSol (nmea_st d'))) \<and> \<not> validVelD (flags (gpsSol (nmea_st d')))) \<and>
         (gpsReceiveData e d1 = Inr (True, d2) \<longrightarrow>
            \<not> validVelNE (flags (gpsSol (nmea_st d2))) \<and> \<not> validVelD (flags (gpsSol (nmea_st d2))))"
  using run_ticks_flags[OF assms] gpsReceiveData_flags[of e d1 True d2] by blast

theorem velocity_flags_only_cleared_witness:
  "\<exists>d'. run_ticks sample_denv sample_env
           [\<lparr>arrived = sentence example_gga (bytes ''47'') @ crlf, sent = 0, clock = 1000\<rparr>]
           (sample_driver GPS_RECEIVING_DATA) = Inr ([True], d') \<and>
        validVelNE (flags (gpsSol (nmea_st (sample_driver GPS_RECEIVING_DATA)))) \<and>
        \<not> validVelNE (flags (gpsSol (nmea_st d'))) \<and> \<not> validVelD (flags (gpsSol (nmea_st d')))"
proof -
  have "map_sum id fst (run_ticks sample_denv sample_env
           [\<lparr>arrived = sentence example_gga (bytes ''47'') @ crlf, sent = 0, clock = 1000\<rparr>]
           (sample_driver GPS_RECEIVING_DATA)) = Inr [True]"
    by code_simp
  then obtain d' where r: "run_ticks sample_denv sample_env
           [\<lparr>arrived = sentence example_gga (bytes ''47'') @ crlf, sent = 0, clock = 1000\<rparr>]
           (sample_driver GPS_RECEIVING_DATA) = Inr ([True], d')"
    by (cases "run_ticks sample_denv sample_env
           [\<lparr>arrived = sentence example_gga (bytes ''47'') @ crlf, sent = 0, clock = 1000\<rparr>]
           (sample_driver GPS_RECEIVING_DATA)") auto
  have i: "validVelNE (flags (gpsSol (nmea_st (sample_driver GPS_RECEIVING_DATA))))"
    by (simp add: sample_driver_def nmea_init_def sample_sol_def)
  from velocity_flags_only_cleared[OF r] r i show ?thesis by auto
qed

text \<open>
  Claim C9: with auto-baud negotiation disabled, one invocation of the baud-negotiation
  step \<open>gpsChangeBaud\<close> does nothing but invoke the finalize handoff: its result is that of
  \<open>gpsFinalizeChangeBaud\<close> applied to the unchanged driver state, so the step itself writes
  nothing to the transport and does not change the baud rate. With the handoff as the
  specification describes it, the driver is past \<open>CHANGE_BAUD\<close> after the invocation and
  the port and the parser state are as before.
\<close>

theorem change_baud_autobaud_off:
  assumes "autoBaud (gpsConfig (gpsState d)) = GPS_AUTOBAUD_OFF"
  shows "gpsChangeBaud x d =
           Inr (False, d\<lparr>gpsState := gpsFinalizeChangeBaud x (millis d) (gpsState d)\<rparr>) \<and>
         (gpsFinalizeChangeBaud x = spec_gpsFinalizeChangeBaud \<longrightarrow>
            (\<exists>d'. gpsChangeBaud x d = Inr (False, d') \<and>
                  state (gpsState d') = GPS_CHECK_VERSION \<and>
                  gpsPort (gpsState d') = gpsPort (gpsState d) \<and>
                  nmea_st d' = nmea_st d))"
  using assms
  by (auto simp: gpsChangeBaud_def Let_def spec_gpsFinalizeChangeBaud_def spec_gpsSetState_def)

theorem change_baud_autobaud_off_witness:
  "autoBaud (gpsConfig (gpsState (sample_driver GPS_CHANGE_BAUD))) = GPS_AUTOBAUD_OFF \<and>
   (\<exists>d'. gpsChangeBaud sample_denv (sample_driver GPS_CHANGE_BAUD) = Inr (False, d') \<and>
         state (gpsState d') = GPS_CHECK_VERSION \<and>
         gpsPort (gpsState d') = Some sample_port)"
proof -
  have a: "autoBaud (gpsConfig (gpsState (sample_driver GPS_CHANGE_BAUD))) = GPS_AUTOBAUD_OFF"
    by (simp add: sample_driver_def)
  have f: "gpsFinalizeChangeBaud sample_denv = spec_gpsFinalizeChangeBaud"
    by (simp add: sample_denv_def)
  have p: "gpsPort (gpsState (sample_driver GPS_CHANGE_BAUD)) = Some sample_port"
    by (simp add: sample_driver_def)
  from change_baud_autobaud_off[OF a, of sample_denv] f a show ?thesis
    unfolding p by blast
qed


end
